theory Spec2Isabelle
  imports Main "HOL-Library.Multiset"
begin

section \<open>Pods and streamers\<close>

text \<open>
  The fields of \<open>corev1.Pod\<close> that the package reads: \<open>pod.Namespace\<close>, \<open>pod.Name\<close>,
  \<open>pod.Labels\<close> (a Go map), \<open>pod.Spec.NodeName\<close>, \<open>pod.Status.Phase\<close> (the type
  \<open>PodPhase\<close> is a string), the names of \<open>pod.Spec.Containers\<close> and of
  \<open>pod.Spec.InitContainers\<close>, and of every entry of \<open>pod.Status.InitContainerStatuses\<close>
  its name and whether \<open>State.Running\<close> is set.
\<close>

record Pod =
  Namespace :: string
  Name :: string
  Labels :: "string \<rightharpoonup> string"
  NodeName :: string
  Phase :: string
  Containers :: "string list"
  InitContainers :: "string list"
  InitContainerStatuses :: "(string \<times> bool) list"

text \<open>
  The fields of \<open>PodLogStreamer\<close> that do not change after \<open>NewPodLogStreamer\<close>. Its
  context and the position of its goroutine are part of the system state further down.
\<close>

record PodLogStreamer =
  pod :: Pod
  container :: string
  tailLines :: "int option"
  since :: "int option"

section \<open>The timestamp prefix (\<open>enrichLogLine\<close>, lines 134 to 148)\<close>

text \<open>
  The loop \<open>for i := 20; i < min(35, len(line)-1); i++\<close>, started at \<open>i\<close>. It returns
  \<open>actualMessage\<close>: the line from \<open>i+2\<close> on at the first \<open>i\<close> with \<open>Z\<close> at \<open>i\<close> and a
  space at \<open>i+1\<close>, and the whole line when the loop ends without a match. The loop runs
  only for lines longer than 31 bytes, so \<open>len(line)-1\<close> is not negative.
\<close>

function stripLoop :: "string \<Rightarrow> nat \<Rightarrow> string" where
  "stripLoop line i =
     (if i < min 35 (length line - 1) then
        (if line ! i = CHR ''Z'' \<and> i + 1 < length line \<and> line ! (i + 1) = CHR '' ''
         then drop (i + 2) line
         else stripLoop line (Suc i))
      else line)"
  by pat_completeness auto
termination
  by (relation "measure (\<lambda>(line, i). min 35 (length line - 1) - i)") auto

declare stripLoop.simps [simp del]

definition actualMessage :: "string \<Rightarrow> string" where
  "actualMessage line =
     (if length line > 0 then
        (if length line > 31 \<and> line ! 4 = CHR ''-'' \<and> line ! 7 = CHR ''-''
            \<and> line ! 10 = CHR ''T''
         then stripLoop line 20
         else line)
      else line)"

text \<open>
  What the check looks for, as a predicate: \<open>zAt line i\<close> is the test of line 141, and
  \<open>timestampFound\<close> says that the test of line 138 passes and that the loop meets an
  offset where \<open>zAt\<close> holds.
\<close>

definition zAt :: "string \<Rightarrow> nat \<Rightarrow> bool" where
  "zAt line i = (line ! i = CHR ''Z'' \<and> i + 1 < length line \<and> line ! (i + 1) = CHR '' '')"

definition timestampShape :: "string \<Rightarrow> bool" where
  "timestampShape line =
     (length line > 31 \<and> line ! 4 = CHR ''-'' \<and> line ! 7 = CHR ''-'' \<and> line ! 10 = CHR ''T'')"

definition timestampFound :: "string \<Rightarrow> bool" where
  "timestampFound line =
     (timestampShape line \<and> list_ex (zAt line) [20 ..< min 35 (length line - 1)])"

text \<open>
  The timestamp that the comment of lines 129 to 137 describes, as a predicate of its
  own, apart from the check: \<open>YYYY-MM-DDTHH:MM:SS\<close>, then either nothing or a point and
  one to nine digits (RFC3339Nano drops trailing zeros; the comment shows nine), then
  \<open>Z\<close>. A line has a timestamp prefix when it starts with such a timestamp and a space.
\<close>

definition isDigit :: "char \<Rightarrow> bool" where
  "isDigit c = ((48::nat) \<le> of_char c \<and> (of_char c :: nat) \<le> 57)"

definition dateTime :: "string \<Rightarrow> bool" where
  "dateTime ts =
     (19 \<le> length ts
      \<and> list_all (\<lambda>i. isDigit (ts ! i)) [0, 1, 2, 3, 5, 6, 8, 9, 11, 12, 14, 15, 17, 18]
      \<and> ts ! 4 = CHR ''-'' \<and> ts ! 7 = CHR ''-'' \<and> ts ! 10 = CHR ''T''
      \<and> ts ! 13 = CHR '':'' \<and> ts ! 16 = CHR '':'')"

definition fraction :: "string \<Rightarrow> bool" where
  "fraction ts =
     (22 \<le> length ts \<and> length ts \<le> 30 \<and> ts ! 19 = CHR ''.''
      \<and> list_all (\<lambda>i. isDigit (ts ! i)) [20 ..< length ts - 1])"

definition rfc3339 :: "string \<Rightarrow> bool" where
  "rfc3339 ts =
     (dateTime ts \<and> (length ts = 20 \<or> fraction ts) \<and> ts ! (length ts - 1) = CHR ''Z'')"

definition timestampPrefix :: "string \<Rightarrow> bool" where
  "timestampPrefix line =
     list_ex (\<lambda>n. n < length line \<and> rfc3339 (take n line) \<and> line ! n = CHR '' '') [20 ..< 31]"

section \<open>JSON encoding of the record\<close>

text \<open>
  \<open>json.Marshal\<close> belongs to Go's standard library. Its string encoder
  (\<open>appendString\<close> of \<open>encoding/json\<close>, with HTML escaping on, as \<open>json.Marshal\<close> sets
  it) writes a byte below \<open>0x80\<close> as it is when it is printable and none of
  \<open>"\<close>, \<open>&\<close>, \<open><\<close>, \<open>>\<close> and the backslash, and as an escape otherwise; an invalid
  UTF-8 byte becomes the escape of U+FFFD, U+2028 and U+2029 are escaped, and every
  other multi-byte character is written as it is.
\<close>

definition backslash :: char where
  "backslash = CHR 0x5C"

definition hex :: "nat \<Rightarrow> char" where
  "hex n = ''0123456789abcdef'' ! n"

definition htmlSafe :: "char \<Rightarrow> bool" where
  "htmlSafe b =
     ((32::nat) \<le> of_char b \<and> b \<noteq> CHR 0x22 \<and> b \<noteq> CHR ''&'' \<and> b \<noteq> CHR ''<''
        \<and> b \<noteq> CHR ''>'' \<and> b \<noteq> backslash)"

definition escapeByte :: "char \<Rightarrow> string" where
  "escapeByte b =
     (if b = backslash \<or> b = CHR 0x22 then [backslash, b]
      else if b = CHR 0x08 then [backslash, CHR ''b'']
      else if b = CHR 0x0C then [backslash, CHR ''f'']
      else if b = CHR 0x0A then [backslash, CHR ''n'']
      else if b = CHR 0x0D then [backslash, CHR ''r'']
      else if b = CHR 0x09 then [backslash, CHR ''t'']
      else backslash # ''u00'' @ [hex (of_char b div 16), hex (of_char b mod 16)])"

definition between :: "nat \<Rightarrow> char \<Rightarrow> nat \<Rightarrow> bool" where
  "between lo c hi = (lo \<le> of_char c \<and> of_char c \<le> hi)"

text \<open>
  \<open>utf8.DecodeRuneInString\<close>, as far as the encoder needs it: the number of bytes of the
  character at the head of the string, and 0 where Go returns \<open>RuneError\<close> with size 1.
\<close>

fun runeLen :: "string \<Rightarrow> nat" where
  "runeLen [] = 0"
| "runeLen (b0 # rest) =
     (if between 0xC2 b0 0xDF then
        (case rest of b1 # _ \<Rightarrow> if between 0x80 b1 0xBF then 2 else 0 | _ \<Rightarrow> 0)
      else if between 0xE0 b0 0xEF then
        (case rest of
           b1 # b2 # _ \<Rightarrow>
             if between (if b0 = CHR 0xE0 then 0xA0 else 0x80) b1
                  (if b0 = CHR 0xED then 0x9F else 0xBF)
                \<and> between 0x80 b2 0xBF
             then 3 else 0
         | _ \<Rightarrow> 0)
      else if between 0xF0 b0 0xF4 then
        (case rest of
           b1 # b2 # b3 # _ \<Rightarrow>
             if between (if b0 = CHR 0xF0 then 0x90 else 0x80) b1
                  (if b0 = CHR 0xF4 then 0x8F else 0xBF)
                \<and> between 0x80 b2 0xBF \<and> between 0x80 b3 0xBF
             then 4 else 0
         | _ \<Rightarrow> 0)
      else 0)"

function appendBytes :: "string \<Rightarrow> string" where
  "appendBytes [] = []"
| "appendBytes (b # rest) =
     (if (of_char b :: nat) < 0x80 then
        (if htmlSafe b then [b] else escapeByte b) @ appendBytes rest
      else if runeLen (b # rest) = 0 then
        backslash # ''ufffd'' @ appendBytes rest
      else if take 3 (b # rest) = [CHR 0xE2, CHR 0x80, CHR 0xA8] then
        backslash # ''u2028'' @ appendBytes (drop 2 rest)
      else if take 3 (b # rest) = [CHR 0xE2, CHR 0x80, CHR 0xA9] then
        backslash # ''u2029'' @ appendBytes (drop 2 rest)
      else take (runeLen (b # rest)) (b # rest) @ appendBytes (drop (runeLen (b # rest) - 1) rest))"
  by pat_completeness auto
termination
  by (relation "measure length") auto

definition appendString :: "string \<Rightarrow> string" where
  "appendString src = CHR 0x22 # appendBytes src @ [CHR 0x22]"

text \<open>
  The value \<open>result\<close> that \<open>enrichLogLine\<close> builds: the body's \<open>stringValue\<close> and the
  slice \<open>k8sAttrs\<close>, each attribute a pair of its \<open>key\<close> and its value's
  \<open>stringValue\<close>.
\<close>

type_synonym attribute = "string \<times> string"

record enriched =
  body :: string
  attributes :: "attribute list"

text \<open>
  \<open>json.Marshal\<close> writes the keys of a Go map in sorted order (\<open>attributes\<close> before
  \<open>body\<close>, \<open>key\<close> before \<open>value\<close>) and the elements of a slice in the slice's order.
  It returns no error on a value made of maps, slices and strings only, so the fallback
  of lines 201 to 206 is never taken.
\<close>

definition marshalAttr :: "attribute \<Rightarrow> string" where
  \<open>marshalAttr a =
     ''{"key":'' @ appendString (fst a) @ '',"value":{"stringValue":''
       @ appendString (snd a) @ ''}}''\<close>

fun joinComma :: "string list \<Rightarrow> string" where
  "joinComma [] = []"
| "joinComma [x] = x"
| "joinComma (x # y # ys) = x @ '','' @ joinComma (y # ys)"

definition marshal :: "enriched \<Rightarrow> string" where
  \<open>marshal r =
     ''{"attributes":['' @ joinComma (map marshalAttr (attributes r))
       @ ''],"body":{"stringValue":'' @ appendString (body r) @ ''}}''\<close>

section \<open>Enrichment (\<open>enrichLogLine\<close>)\<close>

text \<open>
  \<open>for key, value := range s.pod.Labels\<close> visits every entry of the map once, in an
  order that Go leaves unspecified and changes from one run to the next. The order is an
  argument of the model: \<open>rangeOrder m ord\<close> says that \<open>ord\<close> is one of the orders in
  which \<open>range\<close> can visit \<open>m\<close>. A nil map is visited like an empty one.
\<close>

definition rangeOrder :: "(string \<rightharpoonup> string) \<Rightarrow> (string \<times> string) list \<Rightarrow> bool" where
  "rangeOrder m ord = (distinct (map fst ord) \<and> map_of ord = m)"

definition labelAttr :: "string \<times> string \<Rightarrow> attribute" where
  "labelAttr kv = (''k8s.label.'' @ fst kv, snd kv)"

definition k8sAttrs :: "PodLogStreamer \<Rightarrow> (string \<times> string) list \<Rightarrow> attribute list" where
  "k8sAttrs s ord =
     [(''k8s.namespace'', Namespace (pod s)),
      (''k8s.pod'', Name (pod s)),
      (''k8s.container'', container s),
      (''k8s.node'', NodeName (pod s))] @ map labelAttr ord"

definition result :: "PodLogStreamer \<Rightarrow> (string \<times> string) list \<Rightarrow> string \<Rightarrow> enriched" where
  "result s ord line = \<lparr>body = actualMessage line, attributes = k8sAttrs s ord\<rparr>"

definition enrichLogLine :: "PodLogStreamer \<Rightarrow> (string \<times> string) list \<Rightarrow> string \<Rightarrow> string" where
  "enrichLogLine s ord line = marshal (result s ord line)"

section \<open>Example pods\<close>

text \<open>
  The pod of the specification's examples, with its container \<open>web\<close>, and the same
  pod with a second label.
\<close>

definition nginxPod :: Pod where
  "nginxPod = \<lparr>Namespace = ''prod'', Name = ''nginx-1'', Labels = [''app'' \<mapsto> ''nginx''],
     NodeName = ''node-a'', Phase = ''Running'', Containers = [''web''], InitContainers = [],
     InitContainerStatuses = []\<rparr>"

definition nginxWeb :: PodLogStreamer where
  "nginxWeb = \<lparr>pod = nginxPod, container = ''web'', tailLines = Some 10, since = None\<rparr>"

definition tieredWeb :: PodLogStreamer where
  "tieredWeb = nginxWeb\<lparr>pod := nginxPod\<lparr>Labels := [''app'' \<mapsto> ''nginx'', ''tier'' \<mapsto> ''web'']\<rparr>\<rparr>"

section \<open>The pod watcher\<close>

text \<open>
  A \<open>labels.Selector\<close> of the Kubernetes client library is modelled by its method
  \<open>Matches\<close>, a predicate on label sets. \<open>labels.Everything()\<close> matches every set.
\<close>

type_synonym Selector = "(string \<rightharpoonup> string) \<Rightarrow> bool"

definition Everything :: Selector where
  "Everything labels = True"

text \<open>
  \<open>PodWatcher\<close>: its configuration (\<open>namespaces\<close>, \<open>selector\<close>, \<open>podNames\<close>, \<open>tailLines\<close>,
  \<open>since\<close>) and its state. \<open>streamers\<close> maps a stream key to the streamer it points to
  (the index of the streamer among all streamers ever created), \<open>ctxDone\<close> says whether
  \<open>w.cancel\<close> has been called, and \<open>wg\<close> is the counter of the wait group \<open>w.wg\<close>.
\<close>

record PodWatcher =
  namespaces :: "string list"
  selector :: Selector
  podNames :: "string \<rightharpoonup> bool"
  streamers :: "string \<rightharpoonup> nat"
  ctxDone :: bool
  wg :: nat
  w_tailLines :: "int option"
  w_since :: "int option"

datatype error = InvalidLabelSelector

text \<open>
  \<open>NewPodWatcher\<close>. \<open>labels.Parse\<close> is the library's parser, an argument here: it returns
  a selector or fails. The loop of lines 67 to 69 enters every name of the slice
  \<open>podNames\<close> into the map with the value \<open>true\<close>.
\<close>

fun podNamesMap :: "string list \<Rightarrow> (string \<rightharpoonup> bool) \<Rightarrow> (string \<rightharpoonup> bool)" where
  "podNamesMap [] m = m"
| "podNamesMap (podName # rest) m = podNamesMap rest (m(podName \<mapsto> True))"

definition NewPodWatcher ::
  "(string \<Rightarrow> Selector option) \<Rightarrow> string list \<Rightarrow> string \<Rightarrow> string list
     \<Rightarrow> int option \<Rightarrow> int option \<Rightarrow> error + PodWatcher" where
  "NewPodWatcher parse nss sel names tail snc =
     (case (if sel \<noteq> [] then parse sel else Some Everything) of
        None \<Rightarrow> Inl InvalidLabelSelector
      | Some labelSelector \<Rightarrow>
          Inr \<lparr>namespaces = (if length nss = 0 then [''''] else nss),
               selector = labelSelector,
               podNames = podNamesMap names Map.empty,
               streamers = Map.empty,
               ctxDone = False,
               wg = 0,
               w_tailLines = tail,
               w_since = snc\<rparr>)"

text \<open>
  \<open>shouldWatchPod\<close>. The phases are the constants of \<open>corev1\<close>. The lookup
  \<open>w.podNames[podKey]\<close> of a Go map gives \<open>false\<close> for a key that is not in the map.
  \<open>shouldWatchPodReturn\<close> is the \<open>return\<close> statement that the function leaves by, named
  by its line; \<open>shouldWatchPod\<close> is the value returned there.
\<close>

definition PodRunning :: string where
  "PodRunning = ''Running''"

definition PodSucceeded :: string where
  "PodSucceeded = ''Succeeded''"

definition PodPending :: string where
  "PodPending = ''Pending''"

definition PodFailed :: string where
  "PodFailed = ''Failed''"

definition PodUnknown :: string where
  "PodUnknown = ''Unknown''"

definition podKey :: "Pod \<Rightarrow> string" where
  "podKey p = Namespace p @ ''/'' @ Name p"

definition lookupBool :: "(string \<rightharpoonup> bool) \<Rightarrow> string \<Rightarrow> bool" where
  "lookupBool m k = (case m k of None \<Rightarrow> False | Some b \<Rightarrow> b)"

datatype returnSite = Line160 | Line169 | Line177 | Line180

definition shouldWatchPodReturn :: "PodWatcher \<Rightarrow> Pod \<Rightarrow> returnSite" where
  "shouldWatchPodReturn w p =
     (if \<not> selector w (Labels p) then Line160
      else if podNames w \<noteq> Map.empty \<and> \<not> lookupBool (podNames w) (podKey p) then Line169
      else if Phase p \<noteq> PodRunning \<and> Phase p \<noteq> PodSucceeded then Line177
      else Line180)"

definition shouldWatchPod :: "PodWatcher \<Rightarrow> Pod \<Rightarrow> bool" where
  "shouldWatchPod w p =
     (case shouldWatchPodReturn w p of
        Line160 \<Rightarrow> False | Line169 \<Rightarrow> False | Line177 \<Rightarrow> False | Line180 \<Rightarrow> True)"

text \<open>
  The second condition of the policy, on the slice of pod names given to
  \<open>NewPodWatcher\<close>: the slice is empty, or the pod's \<open>namespace/name\<close> is in it.
\<close>

definition allowListed :: "string list \<Rightarrow> Pod \<Rightarrow> bool" where
  "allowListed names p = (names = [] \<or> podKey p \<in> set names)"

section \<open>The running system\<close>

text \<open>
  A streamer and its goroutine. \<open>cancelCalled\<close> says whether the streamer's own
  \<open>cancel\<close> has been called (by \<open>PodLogStreamer.Stop\<close>); its context \<open>s.ctx\<close> is a child
  of the watcher's, so it is done when either cancel has been called. \<open>pos\<close> is where the
  goroutine of \<open>streamLogs\<close> stands: not started by \<open>Start\<close> yet, about to open the stream
  (line 85), about to call \<open>scanner.Scan\<close> (line 100), at the first \<open>select\<close> with the
  line just read (line 101), at the second \<open>select\<close> with the enriched line (line 109),
  or returned.
\<close>

datatype position = Created | AtStream | AtScan | AtCheck string | AtSend string | Exited

record StreamerState =
  streamer :: PodLogStreamer
  cancelCalled :: bool
  pos :: position

text \<open>
  \<open>KubernetesLogSource.Stop\<close>, with \<open>PodWatcher.Stop\<close> in its place: the statement that
  the caller of \<open>Stop\<close> runs next. \<open>Idle\<close>: \<open>Stop\<close> has not been called. \<open>W292\<close>:
  \<open>w.cancel()\<close>. \<open>W298\<close>: \<open>w.wg.Wait()\<close>. \<open>W301\<close>: the map is replaced by an empty one,
  and \<open>PodWatcher.Stop\<close> returns. \<open>L103\<close>: \<open>s.wg.Wait()\<close>. \<open>L104\<close>: \<open>close(s.lineChan)\<close>.
\<close>

datatype stopPosition = Idle | W292 | W298 | W301 | L103 | L104 | Returned

text \<open>
  The whole state: the watcher, every streamer created so far (a streamer is named by
  its index), the buffer of the channel \<open>lineChan\<close> (capacity 1000) and whether it is
  closed, the position of the caller of \<open>Stop\<close>, and whether a goroutine has panicked.
\<close>

record System =
  watcher :: PodWatcher
  heap :: "StreamerState list"
  lineChan :: "string list"
  closed :: bool
  stopAt :: stopPosition
  panicked :: bool

definition capacity :: nat where
  "capacity = 1000"

text \<open>
  \<open>PodWatcher.Start\<close> calls \<open>watchNamespace\<close> for every namespace, and each call hands
  one goroutine (the wait for the cache to synchronise) to \<open>w.wg\<close>; registering the
  handlers is taken to succeed. \<open>initial w\<close> is the state after
  \<open>NewKubernetesLogSource\<close> and \<open>Start\<close>, with \<open>w\<close> from \<open>NewPodWatcher\<close>.
\<close>

definition PodWatcher_Start :: "PodWatcher \<Rightarrow> PodWatcher" where
  "PodWatcher_Start w = w\<lparr>wg := wg w + length (namespaces w)\<rparr>"

definition initial :: "PodWatcher \<Rightarrow> System" where
  "initial w =
     \<lparr>watcher = PodWatcher_Start w, heap = [], lineChan = [], closed = False,
      stopAt = Idle, panicked = False\<rparr>"

subsection \<open>Starting and stopping streams\<close>

definition getStreamKey :: "Pod \<Rightarrow> string \<Rightarrow> string" where
  "getStreamKey p containerName = Namespace p @ ''/'' @ Name p @ ''/'' @ containerName"

definition keyOf :: "StreamerState \<Rightarrow> string" where
  "keyOf s = getStreamKey (pod (streamer s)) (container (streamer s))"

definition NewPodLogStreamer :: "Pod \<Rightarrow> string \<Rightarrow> int option \<Rightarrow> int option \<Rightarrow> StreamerState" where
  "NewPodLogStreamer p c tail snc =
     \<lparr>streamer = \<lparr>pod = p, container = c, tailLines = tail, since = snc\<rparr>,
      cancelCalled = False, pos = Created\<rparr>"

definition setPos :: "nat \<Rightarrow> position \<Rightarrow> System \<Rightarrow> System" where
  "setPos sid q \<sigma> = \<sigma>\<lparr>heap := (heap \<sigma>)[sid := (heap \<sigma> ! sid)\<lparr>pos := q\<rparr>]\<rparr>"

text \<open>
  The critical section of \<open>startPodStreams\<close> for one container (lines 189 to 207, and
  232 to 248 for an init container): under \<open>w.mu\<close>, when the key has an entry nothing is
  done, otherwise a streamer is made and entered.
\<close>

definition lockedCreate :: "Pod \<Rightarrow> string \<Rightarrow> System \<Rightarrow> System" where
  "lockedCreate p c \<sigma> =
     (case streamers (watcher \<sigma>) (getStreamKey p c) of
        Some sid \<Rightarrow> \<sigma>
      | None \<Rightarrow>
          \<sigma>\<lparr>heap := heap \<sigma> @ [NewPodLogStreamer p c (w_tailLines (watcher \<sigma>)) (w_since (watcher \<sigma>))],
            watcher := (watcher \<sigma>)\<lparr>streamers :=
              (streamers (watcher \<sigma>))(getStreamKey p c \<mapsto> length (heap \<sigma>))\<rparr>\<rparr>)"

text \<open>\<open>PodLogStreamer.Start\<close>: \<open>go s.streamLogs()\<close>.\<close>

definition PodLogStreamer_Start :: "nat \<Rightarrow> System \<Rightarrow> System" where
  "PodLogStreamer_Start sid \<sigma> =
     (if sid < length (heap \<sigma>) \<and> pos (heap \<sigma> ! sid) = Created
      then setPos sid AtStream \<sigma> else \<sigma>)"

text \<open>One round of a loop of \<open>startPodStreams\<close>, run without interruption.\<close>

definition ensureStream :: "Pod \<Rightarrow> string \<Rightarrow> System \<Rightarrow> System" where
  "ensureStream p c \<sigma> =
     (case streamers (watcher \<sigma>) (getStreamKey p c) of
        Some sid \<Rightarrow> \<sigma>
      | None \<Rightarrow> PodLogStreamer_Start (length (heap \<sigma>)) (lockedCreate p c \<sigma>))"

fun isRunning :: "string \<Rightarrow> (string \<times> bool) list \<Rightarrow> bool" where
  "isRunning c [] = False"
| "isRunning c (status # rest) =
     (if fst status = c \<and> snd status then True else isRunning c rest)"

fun startContainers :: "Pod \<Rightarrow> string list \<Rightarrow> System \<Rightarrow> System" where
  "startContainers p [] \<sigma> = \<sigma>"
| "startContainers p (c # cs) \<sigma> = startContainers p cs (ensureStream p c \<sigma>)"

fun startInitContainers :: "Pod \<Rightarrow> string list \<Rightarrow> System \<Rightarrow> System" where
  "startInitContainers p [] \<sigma> = \<sigma>"
| "startInitContainers p (c # cs) \<sigma> =
     (if \<not> isRunning c (InitContainerStatuses p) then startInitContainers p cs \<sigma>
      else startInitContainers p cs (ensureStream p c \<sigma>))"

definition startPodStreams :: "Pod \<Rightarrow> System \<Rightarrow> System" where
  "startPodStreams p \<sigma> =
     startInitContainers p (InitContainers p) (startContainers p (Containers p) \<sigma>)"

text \<open>
  \<open>stopPodStreams\<close> holds \<open>w.mu\<close> from its first line to its return. For each container
  with an entry, \<open>streamer.Stop()\<close> calls the streamer's cancel and the entry is deleted.
\<close>

definition stopStream :: "Pod \<Rightarrow> string \<Rightarrow> System \<Rightarrow> System" where
  "stopStream p c \<sigma> =
     (case streamers (watcher \<sigma>) (getStreamKey p c) of
        None \<Rightarrow> \<sigma>
      | Some sid \<Rightarrow>
          \<sigma>\<lparr>heap := (heap \<sigma>)[sid := (heap \<sigma> ! sid)\<lparr>cancelCalled := True\<rparr>],
            watcher := (watcher \<sigma>)\<lparr>streamers := (streamers (watcher \<sigma>))(getStreamKey p c := None)\<rparr>\<rparr>)"

fun stopContainers :: "Pod \<Rightarrow> string list \<Rightarrow> System \<Rightarrow> System" where
  "stopContainers p [] \<sigma> = \<sigma>"
| "stopContainers p (c # cs) \<sigma> = stopContainers p cs (stopStream p c \<sigma>)"

definition stopPodStreams :: "Pod \<Rightarrow> System \<Rightarrow> System" where
  "stopPodStreams p \<sigma> =
     stopContainers p (InitContainers p) (stopContainers p (Containers p) \<sigma>)"

text \<open>The three event handlers of \<open>watchNamespace\<close>.\<close>

definition AddFunc :: "Pod \<Rightarrow> System \<Rightarrow> System" where
  "AddFunc p \<sigma> = (if shouldWatchPod (watcher \<sigma>) p then startPodStreams p \<sigma> else \<sigma>)"

definition UpdateFunc :: "Pod \<Rightarrow> System \<Rightarrow> System" where
  "UpdateFunc p \<sigma> =
     (if shouldWatchPod (watcher \<sigma>) p then startPodStreams p \<sigma> else stopPodStreams p \<sigma>)"

definition DeleteFunc :: "Pod \<Rightarrow> System \<Rightarrow> System" where
  "DeleteFunc p \<sigma> = stopPodStreams p \<sigma>"

subsection \<open>The goroutine of a streamer (\<open>streamLogs\<close>)\<close>

definition ctxIsDone :: "System \<Rightarrow> nat \<Rightarrow> bool" where
  "ctxIsDone \<sigma> sid = (cancelCalled (heap \<sigma> ! sid) \<or> ctxDone (watcher \<sigma>))"

text \<open>\<open>req.Stream(s.ctx)\<close> succeeds or fails (lines 85 to 90).\<close>

definition openStream :: "nat \<Rightarrow> bool \<Rightarrow> System \<Rightarrow> System" where
  "openStream sid ok \<sigma> =
     (if sid < length (heap \<sigma>) \<and> pos (heap \<sigma> ! sid) = AtStream
      then setPos sid (if ok then AtScan else Exited) \<sigma> else \<sigma>)"

text \<open>\<open>scanner.Scan()\<close> gives the next line, or false at the end of the stream or on an error.\<close>

definition scan :: "nat \<Rightarrow> string option \<Rightarrow> System \<Rightarrow> System" where
  "scan sid next \<sigma> =
     (if sid < length (heap \<sigma>) \<and> pos (heap \<sigma> ! sid) = AtScan
      then setPos sid (case next of None \<Rightarrow> Exited | Some line \<Rightarrow> AtCheck line) \<sigma> else \<sigma>)"

text \<open>
  The first \<open>select\<close> (lines 101 to 108): return when the context is done; otherwise skip
  an empty line, and enrich any other, the labels visited in the order \<open>ord\<close>.
\<close>

definition checkLine :: "nat \<Rightarrow> (string \<times> string) list \<Rightarrow> System \<Rightarrow> System" where
  "checkLine sid ord \<sigma> =
     (if sid < length (heap \<sigma>) then
        (case pos (heap \<sigma> ! sid) of
           AtCheck line \<Rightarrow>
             if ctxIsDone \<sigma> sid then setPos sid Exited \<sigma>
             else if line = [] then setPos sid AtScan \<sigma>
             else if rangeOrder (Labels (pod (streamer (heap \<sigma> ! sid)))) ord
             then setPos sid (AtSend (enrichLogLine (streamer (heap \<sigma> ! sid)) ord line)) \<sigma>
             else \<sigma>
         | _ \<Rightarrow> \<sigma>)
      else \<sigma>)"

text \<open>
  The second \<open>select\<close> (lines 109 to 113) has two cases, and Go runs one of those that
  can proceed, chosen at random. The send can proceed when the buffer has room, and it
  can proceed on a closed channel, where it panics. The other case can proceed when the
  context is done.
\<close>

definition sendCase :: "nat \<Rightarrow> System \<Rightarrow> System" where
  "sendCase sid \<sigma> =
     (if sid < length (heap \<sigma>) then
        (case pos (heap \<sigma> ! sid) of
           AtSend enrichedLine \<Rightarrow>
             if closed \<sigma> then \<sigma>\<lparr>panicked := True\<rparr>
             else if length (lineChan \<sigma>) < capacity
             then setPos sid AtScan (\<sigma>\<lparr>lineChan := lineChan \<sigma> @ [enrichedLine]\<rparr>)
             else \<sigma>
         | _ \<Rightarrow> \<sigma>)
      else \<sigma>)"

definition doneCase :: "nat \<Rightarrow> System \<Rightarrow> System" where
  "doneCase sid \<sigma> =
     (if sid < length (heap \<sigma>) then
        (case pos (heap \<sigma> ! sid) of
           AtSend enrichedLine \<Rightarrow> if ctxIsDone \<sigma> sid then setPos sid Exited \<sigma> else \<sigma>
         | _ \<Rightarrow> \<sigma>)
      else \<sigma>)"

subsection \<open>The consumer, the cache synchronisation and \<open>Stop\<close>\<close>

definition receive :: "System \<Rightarrow> System" where
  "receive \<sigma> = \<sigma>\<lparr>lineChan := drop 1 (lineChan \<sigma>)\<rparr>"

text \<open>
  A goroutine of \<open>w.wg.Go\<close> (line 147) returns when the cache has synchronised or the
  context is done, and the counter of \<open>w.wg\<close> goes down by one.
\<close>

definition syncDone :: "System \<Rightarrow> System" where
  "syncDone \<sigma> =
     (if wg (watcher \<sigma>) > 0 then \<sigma>\<lparr>watcher := (watcher \<sigma>)\<lparr>wg := wg (watcher \<sigma>) - 1\<rparr>\<rparr> else \<sigma>)"

text \<open>
  The next statement of \<open>Stop\<close>. The first step is the call and \<open>s.cancel()\<close> (lines 95
  to 97); no goroutine observes the context of \<open>KubernetesLogSource\<close>, the watcher's
  context being made from \<open>context.Background()\<close>. \<open>w.wg.Wait()\<close> returns when the
  counter is zero. Nothing in the package adds to the wait group \<open>s.wg\<close> of
  \<open>KubernetesLogSource\<close>, so \<open>s.wg.Wait()\<close> returns at once. Closing a closed channel
  panics.
\<close>

definition stopStep :: "System \<Rightarrow> System" where
  "stopStep \<sigma> =
     (case stopAt \<sigma> of
        Idle \<Rightarrow> \<sigma>\<lparr>stopAt := W292\<rparr>
      | W292 \<Rightarrow> \<sigma>\<lparr>watcher := (watcher \<sigma>)\<lparr>ctxDone := True\<rparr>, stopAt := W298\<rparr>
      | W298 \<Rightarrow> if wg (watcher \<sigma>) = 0 then \<sigma>\<lparr>stopAt := W301\<rparr> else \<sigma>
      | W301 \<Rightarrow> \<sigma>\<lparr>watcher := (watcher \<sigma>)\<lparr>streamers := Map.empty\<rparr>, stopAt := L103\<rparr>
      | L103 \<Rightarrow> \<sigma>\<lparr>stopAt := L104\<rparr>
      | L104 \<Rightarrow> if closed \<sigma> then \<sigma>\<lparr>panicked := True\<rparr>
                else \<sigma>\<lparr>closed := True, stopAt := Returned\<rparr>
      | Returned \<Rightarrow> \<sigma>)"

subsection \<open>Runs\<close>

text \<open>
  What can happen next: a handler runs from start to end (\<open>Add\<close>, \<open>Update\<close>, \<open>Delete\<close>);
  a handler runs one critical section of \<open>startPodStreams\<close> (\<open>Lock\<close>) or the call of
  \<open>Start\<close> that follows it (\<open>Go\<close>), so that the handlers of several informers interleave
  between their critical sections; the goroutine of a streamer takes a step; the consumer
  receives; a cache synchronisation ends; the caller of \<open>Stop\<close> runs its next statement.
  An event that cannot happen in a state leaves it unchanged, and so does every event
  after a panic.
\<close>

datatype event =
    Add Pod | Update Pod | Delete Pod
  | Lock Pod string | Go nat
  | Open nat bool | Scan nat "string option" | Check nat "(string \<times> string) list"
  | Send nat | Done nat
  | Receive | SyncDone | StopStep

fun exec :: "event \<Rightarrow> System \<Rightarrow> System" where
  "exec (Add p) \<sigma> = AddFunc p \<sigma>"
| "exec (Update p) \<sigma> = UpdateFunc p \<sigma>"
| "exec (Delete p) \<sigma> = DeleteFunc p \<sigma>"
| "exec (Lock p c) \<sigma> = lockedCreate p c \<sigma>"
| "exec (Go sid) \<sigma> = PodLogStreamer_Start sid \<sigma>"
| "exec (Open sid ok) \<sigma> = openStream sid ok \<sigma>"
| "exec (Scan sid next) \<sigma> = scan sid next \<sigma>"
| "exec (Check sid ord) \<sigma> = checkLine sid ord \<sigma>"
| "exec (Send sid) \<sigma> = sendCase sid \<sigma>"
| "exec (Done sid) \<sigma> = doneCase sid \<sigma>"
| "exec Receive \<sigma> = receive \<sigma>"
| "exec SyncDone \<sigma> = syncDone \<sigma>"
| "exec StopStep \<sigma> = stopStep \<sigma>"

definition step :: "System \<Rightarrow> event \<Rightarrow> System" where
  "step \<sigma> e = (if panicked \<sigma> then \<sigma> else exec e \<sigma>)"

definition run :: "event list \<Rightarrow> System \<Rightarrow> System" where
  "run evs \<sigma> = foldl step \<sigma> evs"

text \<open>
  A streamer is live when its context is not done: neither its own cancel nor the
  watcher's has been called.
\<close>

definition live :: "System \<Rightarrow> nat \<Rightarrow> bool" where
  "live \<sigma> sid =
     (sid < length (heap \<sigma>) \<and> \<not> cancelCalled (heap \<sigma> ! sid) \<and> \<not> ctxDone (watcher \<sigma>))"

section \<open>The read loop as a function\<close>






section \<open>The invariant of the registry\<close>

text \<open>
  \<open>keys\<close> lists, for every streamer created so far, its stream key and whether its own
  cancel has been called. The invariant: every entry of the registry points to a streamer
  with the entry's key whose cancel has not been called; as long as the watcher's context
  is not done, every streamer whose cancel has not been called is the entry of its key;
  and once \<open>Stop\<close> is past \<open>w.cancel()\<close> the watcher's context is done.
\<close>

definition pastCancel :: "stopPosition \<Rightarrow> bool" where
  "pastCancel st = (st \<noteq> Idle \<and> st \<noteq> W292)"

definition keys :: "System \<Rightarrow> (string \<times> bool) list" where
  "keys \<sigma> = map (\<lambda>s. (keyOf s, cancelCalled s)) (heap \<sigma>)"

definition regOK ::
  "(string \<rightharpoonup> nat) \<Rightarrow> bool \<Rightarrow> (string \<times> bool) list \<Rightarrow> stopPosition \<Rightarrow> bool" where
  "regOK m dn ks st =
     ((\<forall>k sid. m k = Some sid \<longrightarrow> sid < length ks \<and> ks ! sid = (k, False))
      \<and> (\<not> dn \<longrightarrow> (\<forall>sid. sid < length ks \<and> \<not> snd (ks ! sid) \<longrightarrow> m (fst (ks ! sid)) = Some sid))
      \<and> (pastCancel st \<longrightarrow> dn))"

definition registryOK :: "System \<Rightarrow> bool" where
  "registryOK \<sigma> = regOK (streamers (watcher \<sigma>)) (ctxDone (watcher \<sigma>)) (keys \<sigma>) (stopAt \<sigma>)"

section \<open>Example watchers and runs\<close>

text \<open>
  \<open>defaultWatcher\<close> is the watcher that \<open>KubernetesLogSource.Start\<close> makes from the
  default configuration (all namespaces, no selector, no pod names, ten tail lines);
  \<open>allowListWatcher\<close> is the one that \<open>UpdateFilter\<close> makes for the pod name
  \<open>prod/nginx-1\<close>. \<open>noParse\<close> stands for \<open>labels.Parse\<close> where it is not called.
  \<open>nginx2Pod\<close> has the labels and the phase of \<open>nginxPod\<close> and another name.
\<close>

definition defaultWatcher :: PodWatcher where
  "defaultWatcher =
     \<lparr>namespaces = [''''], selector = Everything, podNames = Map.empty,
      streamers = Map.empty, ctxDone = False, wg = 0, w_tailLines = Some 10, w_since = None\<rparr>"

definition allowListWatcher :: PodWatcher where
  "allowListWatcher =
     \<lparr>namespaces = [''''], selector = Everything, podNames = [''prod/nginx-1'' \<mapsto> True],
      streamers = Map.empty, ctxDone = False, wg = 0, w_tailLines = Some 10, w_since = None\<rparr>"

definition noParse :: "string \<Rightarrow> Selector option" where
  "noParse sel = None"

definition nginx2Pod :: Pod where
  "nginx2Pod = nginxPod\<lparr>Name := ''nginx-2'', NodeName := ''node-b''\<rparr>"

text \<open>
  \<open>beforeStop\<close>: the pod \<open>nginx-1\<close> is added and its streamer started; the stream opens,
  a line is read, the first \<open>select\<close> finds the context live, and the line is enriched:
  the goroutine stands at the second \<open>select\<close>. \<open>watcherStop\<close>: \<open>Stop\<close> is called and
  runs to the return of \<open>PodWatcher.Stop\<close>; the one goroutine of \<open>w.wg\<close> ends once the
  context is done. \<open>sourceStop\<close>: \<open>Stop\<close> runs to its own return.
  \<open>racingHandlers\<close>: one handler has entered the streamer of \<open>web\<close> and not yet started
  it when an update of the same pod is handled, then the first handler goes on, and the
  pod is added once more.
\<close>

definition helloLine :: string where
  "helloLine = ''2024-01-15T10:30:45.123456789Z hello world''"

definition beforeStop :: "event list" where
  "beforeStop =
     [Add nginxPod, Open 0 True, Scan 0 (Some helloLine), Check 0 [(''app'', ''nginx'')]]"

definition watcherStop :: "event list" where
  "watcherStop = [StopStep, StopStep, SyncDone, StopStep, StopStep]"

definition sourceStop :: "event list" where
  "sourceStop = watcherStop @ [StopStep, StopStep]"

definition racingHandlers :: "event list" where
  "racingHandlers = [Lock nginxPod ''web'', Update nginxPod, Go 0, Add nginxPod]"

section \<open>Properties of the timestamp prefix\<close>

lemma stripLoop_unfold:
  "stripLoop line i =
     (if i < min 35 (length line - 1) then
        (if zAt line i then drop (i + 2) line else stripLoop line (Suc i))
      else line)"
  by (subst stripLoop.simps, unfold zAt_def, rule refl)

lemma actualMessage_shape:
  "actualMessage line = (if timestampShape line then stripLoop line 20 else line)"
  by (cases line) (simp_all add: actualMessage_def timestampShape_def)

lemma stripLoop_none:
  "\<forall>j. i \<le> j \<and> j < min 35 (length line - 1) \<longrightarrow> \<not> zAt line j \<Longrightarrow> stripLoop line i = line"
proof (induction line i rule: stripLoop.induct)
  case (1 line i)
  show ?case
  proof (cases "i < min 35 (length line - 1)")
    case True
    with "1.prems" have nz: "\<not> zAt line i" by simp
    from "1.prems" have "\<forall>j. Suc i \<le> j \<and> j < min 35 (length line - 1) \<longrightarrow> \<not> zAt line j"
      by simp
    with "1.IH" True nz have "stripLoop line (Suc i) = line"
      by (simp add: zAt_def)
    with True nz show ?thesis
      by (subst stripLoop_unfold) auto
  next
    case False
    then show ?thesis by (subst stripLoop_unfold) auto
  qed
qed

lemma stripLoop_first:
  "i \<le> k \<Longrightarrow> k < min 35 (length line - 1) \<Longrightarrow> zAt line k
    \<Longrightarrow> \<forall>j. i \<le> j \<and> j < k \<longrightarrow> \<not> zAt line j
    \<Longrightarrow> stripLoop line i = drop (k + 2) line"
proof (induction line i rule: stripLoop.induct)
  case (1 line i)
  from "1.prems" have lt: "i < min 35 (length line - 1)" by simp
  show ?case
  proof (cases "zAt line i")
    case True
    with "1.prems"(4) have "\<not> i < k" by auto
    with "1.prems"(1) have "i = k" by simp
    with True lt show ?thesis
      by (subst stripLoop_unfold) auto
  next
    case False
    with "1.prems"(3) have "i \<noteq> k" by auto
    with "1.prems"(1) have "Suc i \<le> k" by simp
    moreover from "1.prems" have "\<forall>j. Suc i \<le> j \<and> j < k \<longrightarrow> \<not> zAt line j" by simp
    ultimately have "stripLoop line (Suc i) = drop (k + 2) line"
      using "1.IH" lt False "1.prems"(2,3) by (simp add: zAt_def)
    with lt False show ?thesis
      by (subst stripLoop_unfold) auto
  qed
qed

lemma drop_neq: "k < length line \<Longrightarrow> drop (Suc k) line \<noteq> line"
proof
  assume "k < length line" "drop (Suc k) line = line"
  then have "length (drop (Suc k) line) = length line" by simp
  with \<open>k < length line\<close> show False by simp
qed

lemma timestampFound_iff:
  "timestampFound line \<longleftrightarrow> timestampShape line \<and> (\<exists>i. 20 \<le> i \<and> i < min 35 (length line - 1) \<and> zAt line i)"
  by (auto simp: timestampFound_def list_ex_iff)

lemma actualMessage_unchanged_iff: "actualMessage line = line \<longleftrightarrow> \<not> timestampFound line"
proof (cases "timestampShape line")
  case False
  then show ?thesis
    by (simp add: actualMessage_shape timestampFound_def)
next
  case shape: True
  then have am: "actualMessage line = stripLoop line 20"
    by (simp add: actualMessage_shape)
  show ?thesis
  proof
    assume eq: "actualMessage line = line"
    show "\<not> timestampFound line"
    proof
      assume "timestampFound line"
      then obtain i where i: "20 \<le> i" "i < min 35 (length line - 1)" "zAt line i"
        by (auto simp: timestampFound_iff)
      define k where "k = (LEAST j. 20 \<le> j \<and> zAt line j)"
      have k: "20 \<le> k \<and> zAt line k" unfolding k_def
        by (rule LeastI [of "\<lambda>j. 20 \<le> j \<and> zAt line j" i]) (simp add: i)
      have kle: "k \<le> i" unfolding k_def by (rule Least_le) (simp add: i)
      have kmin: "\<forall>j. 20 \<le> j \<and> j < k \<longrightarrow> \<not> zAt line j"
        unfolding k_def using not_less_Least by blast
      from kle i have "k < min 35 (length line - 1)" by simp
      with k kmin have "stripLoop line 20 = drop (k + 2) line"
        by (intro stripLoop_first) auto
      moreover from k have "Suc k < length line" by (simp add: zAt_def)
      ultimately show False using eq am drop_neq [of "Suc k" line] by simp
    qed
  next
    assume "\<not> timestampFound line"
    with shape have "\<forall>j. 20 \<le> j \<and> j < min 35 (length line - 1) \<longrightarrow> \<not> zAt line j"
      by (auto simp: timestampFound_iff)
    then show "actualMessage line = line"
      using am stripLoop_none by simp
  qed
qed

section \<open>Properties of the iteration order\<close>

lemma rangeOrder_set:
  "rangeOrder m ord \<Longrightarrow> set ord = {(k, v). m k = Some v}"
  by (auto simp: rangeOrder_def)

lemma rangeOrder_mset:
  assumes "rangeOrder m ord1" "rangeOrder m ord2"
  shows "mset ord1 = mset ord2"
proof -
  from assms have "set ord1 = set ord2" by (simp add: rangeOrder_set)
  moreover from assms have "distinct ord1" "distinct ord2"
    by (auto simp: rangeOrder_def distinct_map)
  ultimately show ?thesis by (simp add: set_eq_iff_mset_eq_distinct)
qed

lemma rangeOrder_length: "rangeOrder m ord \<Longrightarrow> length ord = card (dom m)"
proof -
  assume r: "rangeOrder m ord"
  then have "dom m = set (map fst ord)" by (simp add: rangeOrder_def dom_map_of_conv_image_fst [symmetric])
  moreover from r have "distinct (map fst ord)" by (simp add: rangeOrder_def)
  ultimately show ?thesis using distinct_card [of "map fst ord"] by simp
qed

lemma rangeOrder_small:
  assumes "rangeOrder m ord1" "rangeOrder m ord2" "card (dom m) \<le> 1"
  shows "ord1 = ord2"
proof -
  from assms have l: "length ord1 \<le> 1" "length ord2 \<le> 1" by (simp_all add: rangeOrder_length)
  from assms have "set ord1 = set ord2" by (simp add: rangeOrder_set)
  with l show ?thesis
    by (cases ord1; cases ord2) simp_all
qed

lemma rangeOrder_single: "rangeOrder [k \<mapsto> v] ord \<Longrightarrow> ord = [(k, v)]"
proof -
  assume r: "rangeOrder [k \<mapsto> v] ord"
  have "rangeOrder [k \<mapsto> v] [(k, v)]" by (simp add: rangeOrder_def)
  with r show ?thesis by (rule rangeOrder_small) simp
qed

section \<open>Claims about enrichment\<close>

lemma digit_not_Z: "isDigit c \<Longrightarrow> c \<noteq> CHR ''Z''"
  by (auto simp: isDigit_def)

lemma actualMessage_timestamp:
  assumes ts: "rfc3339 ts" and fr: "22 \<le> length ts" and len: "31 < length ts + 1 + length m"
  shows "actualMessage (ts @ CHR '' '' # m) = m"
proof -
  define line where "line = ts @ CHR '' '' # m"
  define k where "k = length ts - 1"
  from ts fr have frac: "fraction ts" by (auto simp: rfc3339_def)
  then have k: "21 \<le> k" "k \<le> 29" "Suc k = length ts" by (auto simp: fraction_def k_def)
  have nth: "line ! j = ts ! j" if "j < length ts" for j
    using that by (simp add: line_def nth_append)
  from ts have dt: "dateTime ts" by (simp add: rfc3339_def)
  then have "ts ! 4 = CHR ''-''" "ts ! 7 = CHR ''-''" "ts ! 10 = CHR ''T''"
    by (simp_all add: dateTime_def)
  with fr len have shape: "timestampShape line"
    by (simp add: timestampShape_def nth line_def [symmetric]) (simp add: line_def)
  from ts k have "ts ! k = CHR ''Z''" by (simp add: rfc3339_def k_def)
  with k have zk: "zAt line k"
    by (simp add: zAt_def nth) (simp add: line_def nth_append)
  have before: "\<not> zAt line j" if "20 \<le> j" "j < k" for j
  proof -
    from frac that k have "isDigit (ts ! j)"
      by (simp add: fraction_def list_all_iff)
    then have "ts ! j \<noteq> CHR ''Z''" by (rule digit_not_Z)
    with that k show ?thesis by (simp add: zAt_def nth)
  qed
  from k len have "k < min 35 (length line - 1)" by (simp add: line_def)
  with k zk before have "stripLoop line 20 = drop (k + 2) line"
    by (intro stripLoop_first) auto
  with shape have "actualMessage line = drop (k + 2) line" by (simp add: actualMessage_shape)
  also from k have "drop (k + 2) line = m" by (simp add: line_def)
  finally show ?thesis by (simp add: line_def)
qed

lemma actualMessage_no_shape:
  "length line \<le> 31 \<or> line ! 4 \<noteq> CHR ''-'' \<or> line ! 7 \<noteq> CHR ''-'' \<or> line ! 10 \<noteq> CHR ''T''
    \<Longrightarrow> actualMessage line = line"
  by (auto simp: actualMessage_shape timestampShape_def)

text \<open>
  Claim C4 says that every line with no timestamp prefix keeps its body. The line below
  does not start with a timestamp, but it has \<open>-\<close> at offsets 4 and 7, \<open>T\<close> at offset 10
  and \<open>Z\<close> with a space at offsets 32 and 33: the check passes, and the body is what
  follows, not the line.
\<close>

theorem shaped_line_counterexample:
  "\<not> timestampPrefix ''user-id-42T is not a timestamp: Z marks the spot''
   \<and> body (result nginxWeb [(''app'', ''nginx'')]
        ''user-id-42T is not a timestamp: Z marks the spot'') = ''marks the spot''
   \<and> body (result nginxWeb [(''app'', ''nginx'')]
        ''user-id-42T is not a timestamp: Z marks the spot'')
       \<noteq> ''user-id-42T is not a timestamp: Z marks the spot''"
proof -
  have a: "\<not> timestampPrefix ''user-id-42T is not a timestamp: Z marks the spot''"
    by (simp add: timestampPrefix_def rfc3339_def dateTime_def isDigit_def)
  have b: "actualMessage ''user-id-42T is not a timestamp: Z marks the spot'' = ''marks the spot''"
    by code_simp
  from a b show ?thesis by (simp add: result_def)
qed

text \<open>
  Claim C4, amended. For the line \<open>2024-01-15T10:30:45.123456789Z hello world\<close> the body
  of the enriched record is exactly \<open>hello world\<close>, and for every line longer than 31
  bytes that is a timestamp with one to nine fractional digits, a space and a message, the
  body is exactly the message. The line \<open>hello world\<close> keeps its body, and so does every
  line that is at most 31 bytes long or does not have \<open>-\<close> at offsets 4 and 7 and \<open>T\<close> at
  offset 10. The body does not depend on the streamer or on the order of the labels.
\<close>

theorem timestamp_roundtrip:
  "body (result s ord ''2024-01-15T10:30:45.123456789Z hello world'') = ''hello world''
   \<and> body (result s ord ''hello world'') = ''hello world''
   \<and> (rfc3339 ts \<and> 22 \<le> length ts \<and> 31 < length ts + 1 + length m \<longrightarrow>
        body (result s ord (ts @ CHR '' '' # m)) = m)
   \<and> (length line \<le> 31 \<or> line ! 4 \<noteq> CHR ''-'' \<or> line ! 7 \<noteq> CHR ''-''
        \<or> line ! 10 \<noteq> CHR ''T'' \<longrightarrow>
        body (result s ord line) = line)"
proof -
  have "actualMessage ''2024-01-15T10:30:45.123456789Z hello world'' = ''hello world''"
    by code_simp
  moreover have "actualMessage ''hello world'' = ''hello world''"
    by (simp add: actualMessage_def)
  ultimately show ?thesis
    using actualMessage_timestamp [of ts m] actualMessage_no_shape [of line]
    by (simp add: result_def)
qed

text \<open>
  The amended C4 at a timestamp with one fractional digit, and at a line of 22 bytes
  without a timestamp.
\<close>

theorem timestamp_roundtrip_witness:
  "rfc3339 ''2024-01-15T10:30:45.5Z''
   \<and> body (result nginxWeb [(''app'', ''nginx'')]
        ''2024-01-15T10:30:45.5Z connection established'') = ''connection established''
   \<and> length ''level=info msg=started'' \<le> 31
   \<and> body (result nginxWeb [(''app'', ''nginx'')] ''level=info msg=started'')
       = ''level=info msg=started''"
proof -
  have h: "rfc3339 ''2024-01-15T10:30:45.5Z''"
    by (simp add: rfc3339_def dateTime_def fraction_def isDigit_def upt_rec)
  have l: "22 \<le> length ''2024-01-15T10:30:45.5Z''"
    "31 < length ''2024-01-15T10:30:45.5Z'' + 1 + length ''connection established''"
    "length ''level=info msg=started'' \<le> 31"
    by simp_all
  from timestamp_roundtrip [of nginxWeb "[(''app'', ''nginx'')]" "''2024-01-15T10:30:45.5Z''"
      "''connection established''" "''level=info msg=started''"] h l
  have "body (result nginxWeb [(''app'', ''nginx'')]
        (''2024-01-15T10:30:45.5Z'' @ CHR '' '' # ''connection established'')) = ''connection established''
    \<and> body (result nginxWeb [(''app'', ''nginx'')] ''level=info msg=started'')
       = ''level=info msg=started''"
    by blast
  with h l(3) show ?thesis by simp
qed

text \<open>
  Claim C10 says that a line whose timestamp has no fractional digits (its \<open>Z\<close> at offset
  19) is always passed through with the timestamp left in the body. The line below starts
  with such a timestamp, and its message has \<open>Z\<close> and a space at offsets 29 and 30: the
  loop finds them, and the body is what follows, without the timestamp.
\<close>

theorem no_fraction_counterexample:
  "take 21 ''2024-01-15T10:30:45Z 10:30:45Z server started'' = ''2024-01-15T10:30:45Z ''
   \<and> ''2024-01-15T10:30:45Z 10:30:45Z server started'' ! 19 = CHR ''Z''
   \<and> actualMessage ''2024-01-15T10:30:45Z 10:30:45Z server started'' = ''server started''"
  by code_simp

text \<open>
  Claim C10, amended. The body differs from the line exactly when the line is at least 32
  bytes long, has \<open>-\<close> at offsets 4 and 7 and \<open>T\<close> at offset 10, and has \<open>Z\<close> followed by
  a space at an offset from 20 through \<open>min(34, len-2)\<close>; the body is then the line after
  the first such \<open>Z\<close> and its space. So a line of 31 bytes or fewer is passed through
  unchanged, and so is every line with no \<open>Z\<close> and space at offsets 20 to 34: a
  timestamp whose \<open>Z\<close> is at offset 19 is never what the loop finds.
\<close>

theorem timestamp_window:
  "(actualMessage line \<noteq> line \<longleftrightarrow>
      timestampShape line \<and> (\<exists>i. 20 \<le> i \<and> i \<le> min 34 (length line - 2) \<and> zAt line i))
   \<and> (length line \<le> 31 \<longrightarrow> actualMessage line = line)
   \<and> ((\<forall>i. 20 \<le> i \<and> i \<le> 34 \<longrightarrow> \<not> zAt line i) \<longrightarrow> actualMessage line = line)
   \<and> (timestampShape line \<and> 20 \<le> k \<and> k \<le> min 34 (length line - 2) \<and> zAt line k
        \<and> (\<forall>j. 20 \<le> j \<and> j < k \<longrightarrow> \<not> zAt line j)
      \<longrightarrow> actualMessage line = drop (k + 2) line)"
proof -
  have win: "i < min 35 (length line - 1) \<longleftrightarrow> i \<le> min 34 (length line - 2)"
    if "timestampShape line" for i
    using that by (auto simp: timestampShape_def)
  have a: "actualMessage line \<noteq> line \<longleftrightarrow>
      timestampShape line \<and> (\<exists>i. 20 \<le> i \<and> i \<le> min 34 (length line - 2) \<and> zAt line i)"
    using win by (auto simp: actualMessage_unchanged_iff timestampFound_iff)
  have b: "length line \<le> 31 \<longrightarrow> actualMessage line = line"
    by (simp add: actualMessage_shape timestampShape_def)
  have c: "(\<forall>i. 20 \<le> i \<and> i \<le> 34 \<longrightarrow> \<not> zAt line i) \<longrightarrow> actualMessage line = line"
    using a by auto
  have d: "timestampShape line \<and> 20 \<le> k \<and> k \<le> min 34 (length line - 2) \<and> zAt line k
        \<and> (\<forall>j. 20 \<le> j \<and> j < k \<longrightarrow> \<not> zAt line j)
      \<longrightarrow> actualMessage line = drop (k + 2) line"
    using win [of k] stripLoop_first [of 20 k line] by (auto simp: actualMessage_shape)
  from a b c d show ?thesis by blast
qed

text \<open>
  The amended C10 at the claim's own example, a line of 24 bytes.
\<close>

theorem timestamp_window_witness:
  "length ''2024-01-15T10:30:45Z msg'' \<le> 31
   \<and> actualMessage ''2024-01-15T10:30:45Z msg'' = ''2024-01-15T10:30:45Z msg''"
proof -
  have h: "length ''2024-01-15T10:30:45Z msg'' \<le> 31" by simp
  from timestamp_window [of "''2024-01-15T10:30:45Z msg''" 0] h
  show ?thesis by blast
qed

text \<open>
  Claim C8. For the pod \<open>nginx-1\<close> of namespace \<open>prod\<close> on node \<open>node-a\<close>, with the one
  label \<open>app=nginx\<close>, and its container \<open>web\<close>, the attributes of the record are exactly
  the five of the claim, whatever the order in which \<open>range\<close> visits the labels. For
  every streamer, the attributes are the four identity attributes followed by one
  \<open>k8s.label.<key>\<close> attribute for each label of the pod: their number is four plus the
  number of labels, and the label attributes are those of the pod's labels, no more and
  no fewer.
\<close>

theorem attribute_completeness:
  "(rangeOrder (Labels (pod nginxWeb)) ord0 \<longrightarrow>
      attributes (result nginxWeb ord0 line0) =
        [(''k8s.namespace'', ''prod''), (''k8s.pod'', ''nginx-1''), (''k8s.container'', ''web''),
         (''k8s.node'', ''node-a''), (''k8s.label.app'', ''nginx'')])
   \<and> (rangeOrder (Labels (pod s)) ord \<longrightarrow>
        attributes (result s ord line) =
          [(''k8s.namespace'', Namespace (pod s)), (''k8s.pod'', Name (pod s)),
           (''k8s.container'', container s), (''k8s.node'', NodeName (pod s))]
          @ map labelAttr ord
        \<and> length (attributes (result s ord line)) = 4 + card (dom (Labels (pod s)))
        \<and> set (map labelAttr ord) =
            {(''k8s.label.'' @ k, v) | k v. Labels (pod s) k = Some v})"
proof -
  have one: "attributes (result nginxWeb ord0 line0) =
        [(''k8s.namespace'', ''prod''), (''k8s.pod'', ''nginx-1''), (''k8s.container'', ''web''),
         (''k8s.node'', ''node-a''), (''k8s.label.app'', ''nginx'')]"
    if "rangeOrder (Labels (pod nginxWeb)) ord0"
  proof -
    from that have "ord0 = [(''app'', ''nginx'')]"
      by (intro rangeOrder_single) (simp add: nginxWeb_def nginxPod_def)
    then show ?thesis
      by (simp add: result_def k8sAttrs_def labelAttr_def nginxWeb_def nginxPod_def)
  qed
  have gen: "length (attributes (result s ord line)) = 4 + card (dom (Labels (pod s)))
        \<and> set (map labelAttr ord) = {(''k8s.label.'' @ k, v) | k v. Labels (pod s) k = Some v}"
    if r: "rangeOrder (Labels (pod s)) ord"
  proof -
    from r have "length ord = card (dom (Labels (pod s)))" by (rule rangeOrder_length)
    moreover from r have "set ord = {(k, v). Labels (pod s) k = Some v}" by (rule rangeOrder_set)
    then have "set (map labelAttr ord) = {(''k8s.label.'' @ k, v) | k v. Labels (pod s) k = Some v}"
      by (auto simp: labelAttr_def image_iff)
    ultimately show ?thesis by (simp add: result_def k8sAttrs_def)
  qed
  have "attributes (result s ord line) =
          [(''k8s.namespace'', Namespace (pod s)), (''k8s.pod'', Name (pod s)),
           (''k8s.container'', container s), (''k8s.node'', NodeName (pod s))]
          @ map labelAttr ord"
    by (simp add: result_def k8sAttrs_def)
  with one gen show ?thesis by blast
qed

text \<open>
  C8 at the only order in which the single label can be visited.
\<close>

theorem attribute_completeness_witness:
  "rangeOrder (Labels (pod nginxWeb)) [(''app'', ''nginx'')]
   \<and> attributes (result nginxWeb [(''app'', ''nginx'')] ''hello world'') =
        [(''k8s.namespace'', ''prod''), (''k8s.pod'', ''nginx-1''), (''k8s.container'', ''web''),
         (''k8s.node'', ''node-a''), (''k8s.label.app'', ''nginx'')]
   \<and> length (attributes (result nginxWeb [(''app'', ''nginx'')] ''hello world'')) = 5"
proof -
  have h: "rangeOrder (Labels (pod nginxWeb)) [(''app'', ''nginx'')]"
    by (simp add: rangeOrder_def nginxWeb_def nginxPod_def)
  have c: "card (dom (Labels (pod nginxWeb))) = 1"
    by (simp add: nginxWeb_def nginxPod_def)
  from attribute_completeness [of "[(''app'', ''nginx'')]" "''hello world''" nginxWeb
      "[(''app'', ''nginx'')]" "''hello world''"] h c
  show ?thesis by simp
qed

text \<open>
  Claim C3 says that two runs of \<open>enrichLogLine\<close> on the same line for the same workload
  give the same bytes. For a pod with the two labels \<open>app=nginx\<close> and \<open>tier=web\<close>,
  \<open>range\<close> may visit \<open>app\<close> first in one run and \<open>tier\<close> first in the next, and the
  two serialised records differ.
\<close>

theorem label_order_counterexample:
  \<open>rangeOrder (Labels (pod tieredWeb)) [(''app'', ''nginx''), (''tier'', ''web'')]
   \<and> rangeOrder (Labels (pod tieredWeb)) [(''tier'', ''web''), (''app'', ''nginx'')]
   \<and> enrichLogLine tieredWeb [(''app'', ''nginx''), (''tier'', ''web'')] ''hello world'' =
       ''{"attributes":[{"key":"k8s.namespace","value":{"stringValue":"prod"}},{"key":"k8s.pod","value":{"stringValue":"nginx-1"}},{"key":"k8s.container","value":{"stringValue":"web"}},{"key":"k8s.node","value":{"stringValue":"node-a"}},{"key":"k8s.label.app","value":{"stringValue":"nginx"}},{"key":"k8s.label.tier","value":{"stringValue":"web"}}],"body":{"stringValue":"hello world"}}''
   \<and> enrichLogLine tieredWeb [(''tier'', ''web''), (''app'', ''nginx'')] ''hello world'' =
       ''{"attributes":[{"key":"k8s.namespace","value":{"stringValue":"prod"}},{"key":"k8s.pod","value":{"stringValue":"nginx-1"}},{"key":"k8s.container","value":{"stringValue":"web"}},{"key":"k8s.node","value":{"stringValue":"node-a"}},{"key":"k8s.label.tier","value":{"stringValue":"web"}},{"key":"k8s.label.app","value":{"stringValue":"nginx"}}],"body":{"stringValue":"hello world"}}''
   \<and> enrichLogLine tieredWeb [(''app'', ''nginx''), (''tier'', ''web'')] ''hello world'' \<noteq>
       enrichLogLine tieredWeb [(''tier'', ''web''), (''app'', ''nginx'')] ''hello world''\<close>
proof -
  have m: "Labels (pod tieredWeb) = [''app'' \<mapsto> ''nginx'', ''tier'' \<mapsto> ''web'']"
    by (simp add: tieredWeb_def nginxWeb_def nginxPod_def)
  have r1: "rangeOrder (Labels (pod tieredWeb)) [(''app'', ''nginx''), (''tier'', ''web'')]"
    unfolding m rangeOrder_def by auto
  have r2: "rangeOrder (Labels (pod tieredWeb)) [(''tier'', ''web''), (''app'', ''nginx'')]"
    unfolding m rangeOrder_def by auto
  have e1: \<open>enrichLogLine tieredWeb [(''app'', ''nginx''), (''tier'', ''web'')] ''hello world'' =
       ''{"attributes":[{"key":"k8s.namespace","value":{"stringValue":"prod"}},{"key":"k8s.pod","value":{"stringValue":"nginx-1"}},{"key":"k8s.container","value":{"stringValue":"web"}},{"key":"k8s.node","value":{"stringValue":"node-a"}},{"key":"k8s.label.app","value":{"stringValue":"nginx"}},{"key":"k8s.label.tier","value":{"stringValue":"web"}}],"body":{"stringValue":"hello world"}}''\<close>
    by code_simp
  have e2: \<open>enrichLogLine tieredWeb [(''tier'', ''web''), (''app'', ''nginx'')] ''hello world'' =
       ''{"attributes":[{"key":"k8s.namespace","value":{"stringValue":"prod"}},{"key":"k8s.pod","value":{"stringValue":"nginx-1"}},{"key":"k8s.container","value":{"stringValue":"web"}},{"key":"k8s.node","value":{"stringValue":"node-a"}},{"key":"k8s.label.tier","value":{"stringValue":"web"}},{"key":"k8s.label.app","value":{"stringValue":"nginx"}}],"body":{"stringValue":"hello world"}}''\<close>
    by code_simp
  have ne: "enrichLogLine tieredWeb [(''app'', ''nginx''), (''tier'', ''web'')] ''hello world'' \<noteq>
       enrichLogLine tieredWeb [(''tier'', ''web''), (''app'', ''nginx'')] ''hello world''"
    unfolding e1 e2 by simp
  from r1 r2 e1 e2 ne show ?thesis by blast
qed

text \<open>
  Claim C3, amended. Two runs on the same line for the same workload give records with
  the same body, the same four identity attributes in the same first four places, and the
  same label attributes up to their order; the serialised records are byte-for-byte
  identical when the pod has at most one label.
\<close>

theorem enrich_up_to_label_order:
  assumes "rangeOrder (Labels (pod s)) ord1" and "rangeOrder (Labels (pod s)) ord2"
  shows "body (result s ord1 line) = body (result s ord2 line)
    \<and> take 4 (attributes (result s ord1 line)) = take 4 (attributes (result s ord2 line))
    \<and> mset (attributes (result s ord1 line)) = mset (attributes (result s ord2 line))
    \<and> (card (dom (Labels (pod s))) \<le> 1 \<longrightarrow> enrichLogLine s ord1 line = enrichLogLine s ord2 line)"
proof -
  from assms have "mset ord1 = mset ord2" by (rule rangeOrder_mset)
  then have "mset (map labelAttr ord1) = mset (map labelAttr ord2)"
    by (metis mset_map)
  then have m: "mset (attributes (result s ord1 line)) = mset (attributes (result s ord2 line))"
    by (simp add: result_def k8sAttrs_def)
  have "enrichLogLine s ord1 line = enrichLogLine s ord2 line"
    if "card (dom (Labels (pod s))) \<le> 1"
    using rangeOrder_small [OF assms that] by simp
  with m show ?thesis by (simp add: result_def k8sAttrs_def)
qed

text \<open>
  The amended C3 at the two orders of the pod with two labels.
\<close>

theorem enrich_up_to_label_order_witness:
  "mset (attributes (result tieredWeb [(''app'', ''nginx''), (''tier'', ''web'')] ''hello world''))
     = mset (attributes (result tieredWeb [(''tier'', ''web''), (''app'', ''nginx'')] ''hello world''))
   \<and> take 4 (attributes (result tieredWeb [(''app'', ''nginx''), (''tier'', ''web'')] ''hello world''))
     = take 4 (attributes (result tieredWeb [(''tier'', ''web''), (''app'', ''nginx'')] ''hello world''))"
proof -
  have m: "Labels (pod tieredWeb) = [''app'' \<mapsto> ''nginx'', ''tier'' \<mapsto> ''web'']"
    by (simp add: tieredWeb_def nginxWeb_def nginxPod_def)
  have r1: "rangeOrder (Labels (pod tieredWeb)) [(''app'', ''nginx''), (''tier'', ''web'')]"
    unfolding m rangeOrder_def by auto
  have r2: "rangeOrder (Labels (pod tieredWeb)) [(''tier'', ''web''), (''app'', ''nginx'')]"
    unfolding m rangeOrder_def by auto
  from enrich_up_to_label_order [OF r1 r2, of "''hello world''"]
  show ?thesis by blast
qed

section \<open>Properties of the watch policy\<close>

lemma lookupBool_empty: "\<not> lookupBool Map.empty k"
  by (simp add: lookupBool_def)

lemma podNamesMap_lookup:
  "lookupBool (podNamesMap names m) k \<longleftrightarrow> k \<in> set names \<or> lookupBool m k"
  by (induction names arbitrary: m) (auto simp: lookupBool_def)

lemma podNamesMap_dom: "dom (podNamesMap names m) = set names \<union> dom m"
  by (induction names arbitrary: m) auto

lemma podNamesMap_empty: "podNamesMap names Map.empty = Map.empty \<longleftrightarrow> names = []"
proof -
  have "podNamesMap names Map.empty = Map.empty \<longleftrightarrow> dom (podNamesMap names Map.empty) = {}"
    by simp
  then show ?thesis by (simp add: podNamesMap_dom)
qed

lemma shouldWatchPod_Line180: "shouldWatchPod w p \<longleftrightarrow> shouldWatchPodReturn w p = Line180"
  by (cases "shouldWatchPodReturn w p") (simp_all add: shouldWatchPod_def)

lemma shouldWatchPodReturn_cases:
  "shouldWatchPodReturn w p =
     (if \<not> selector w (Labels p) then Line160
      else if podNames w \<noteq> Map.empty \<and> \<not> lookupBool (podNames w) (podKey p) then Line169
      else if Phase p \<noteq> PodRunning \<and> Phase p \<noteq> PodSucceeded then Line177
      else Line180)"
  by (simp add: shouldWatchPodReturn_def)

lemma NewPodWatcher_podNames:
  "NewPodWatcher parse nss sel names tail snc = Inr w \<Longrightarrow> podNames w = podNamesMap names Map.empty"
  by (cases "if sel \<noteq> [] then parse sel else Some Everything")
    (auto simp: NewPodWatcher_def)

lemma allowListed_podNames:
  "(podNamesMap names Map.empty \<noteq> Map.empty
      \<and> \<not> lookupBool (podNamesMap names Map.empty) k) \<longleftrightarrow> \<not> (names = [] \<or> k \<in> set names)"
  by (simp add: podNamesMap_empty podNamesMap_lookup lookupBool_empty)

lemma excluded_phases:
  "PodPending \<noteq> PodRunning" "PodPending \<noteq> PodSucceeded"
  "PodFailed \<noteq> PodRunning" "PodFailed \<noteq> PodSucceeded"
  "PodUnknown \<noteq> PodRunning" "PodUnknown \<noteq> PodSucceeded"
  by (simp_all add: PodPending_def PodFailed_def PodUnknown_def PodRunning_def PodSucceeded_def)

text \<open>
  Claim C5. For a watcher made by \<open>NewPodWatcher\<close> from the slice \<open>names\<close> of pod names,
  \<open>shouldWatchPod\<close> returns true exactly when the pod's labels satisfy the selector, and,
  when \<open>names\<close> is not empty, the pod's \<open>namespace/name\<close> is in it, and the phase is
  Running or Succeeded; the phases Pending, Failed and Unknown are excluded. The three
  checks run in this order and the function returns at the first that fails: it leaves
  by line 160 exactly when the selector does not match, by line 169 exactly when the
  selector matches and the name is not listed, and by line 177 exactly when the first two
  checks pass and the phase is neither Running nor Succeeded.
\<close>

theorem shouldWatchPod_policy:
  assumes "NewPodWatcher parse nss sel names tail snc = Inr w"
  shows "(shouldWatchPod w p \<longleftrightarrow>
            selector w (Labels p) \<and> allowListed names p
            \<and> (Phase p = PodRunning \<or> Phase p = PodSucceeded))
    \<and> (Phase p = PodPending \<or> Phase p = PodFailed \<or> Phase p = PodUnknown
          \<longrightarrow> \<not> shouldWatchPod w p)
    \<and> (shouldWatchPodReturn w p = Line160 \<longleftrightarrow> \<not> selector w (Labels p))
    \<and> (shouldWatchPodReturn w p = Line169 \<longleftrightarrow>
          selector w (Labels p) \<and> \<not> allowListed names p)
    \<and> (shouldWatchPodReturn w p = Line177 \<longleftrightarrow>
          selector w (Labels p) \<and> allowListed names p
          \<and> Phase p \<noteq> PodRunning \<and> Phase p \<noteq> PodSucceeded)"
proof -
  define listed where "listed = allowListed names p"
  have al: "(podNames w \<noteq> Map.empty \<and> \<not> lookupBool (podNames w) (podKey p)) \<longleftrightarrow> \<not> listed"
    unfolding listed_def allowListed_def NewPodWatcher_podNames [OF assms]
    by (rule allowListed_podNames)
  have ret: "shouldWatchPodReturn w p =
     (if \<not> selector w (Labels p) then Line160
      else if \<not> listed then Line169
      else if Phase p \<noteq> PodRunning \<and> Phase p \<noteq> PodSucceeded then Line177
      else Line180)"
    unfolding shouldWatchPodReturn_cases al by (rule refl)
  have a: "shouldWatchPod w p \<longleftrightarrow>
            selector w (Labels p) \<and> listed \<and> (Phase p = PodRunning \<or> Phase p = PodSucceeded)"
    by (simp add: shouldWatchPod_Line180 ret)
  have b: "Phase p = PodPending \<or> Phase p = PodFailed \<or> Phase p = PodUnknown
          \<longrightarrow> \<not> shouldWatchPod w p"
    using excluded_phases unfolding a by metis
  have c: "shouldWatchPodReturn w p = Line160 \<longleftrightarrow> \<not> selector w (Labels p)"
    by (simp add: ret)
  have d: "shouldWatchPodReturn w p = Line169 \<longleftrightarrow> selector w (Labels p) \<and> \<not> listed"
    by (simp add: ret)
  have e: "shouldWatchPodReturn w p = Line177 \<longleftrightarrow>
          selector w (Labels p) \<and> listed \<and> Phase p \<noteq> PodRunning \<and> Phase p \<noteq> PodSucceeded"
    by (simp add: ret)
  from a b c d e show ?thesis unfolding listed_def by blast
qed

lemma NewPodWatcher_allowList:
  "NewPodWatcher parse [] [] [''prod/nginx-1''] (Some 10) None = Inr allowListWatcher"
  by (simp add: NewPodWatcher_def allowListWatcher_def)

lemma NewPodWatcher_default:
  "NewPodWatcher parse [] [] [] (Some 10) None = Inr defaultWatcher"
  by (simp add: NewPodWatcher_def defaultWatcher_def)

text \<open>
  C5 at the watcher for the pod name \<open>prod/nginx-1\<close>: the running pod of that name is
  watched, the pod \<open>nginx-2\<close> is not, and the pod is not watched while it is pending.
\<close>

theorem shouldWatchPod_policy_witness:
  "NewPodWatcher noParse [] [] [''prod/nginx-1''] (Some 10) None = Inr allowListWatcher
   \<and> shouldWatchPod allowListWatcher nginxPod
   \<and> \<not> shouldWatchPod allowListWatcher nginx2Pod
   \<and> \<not> shouldWatchPod allowListWatcher (nginxPod\<lparr>Phase := PodPending\<rparr>)"
proof -
  have h: "NewPodWatcher noParse [] [] [''prod/nginx-1''] (Some 10) None = Inr allowListWatcher"
    by (rule NewPodWatcher_allowList)
  have s: "selector allowListWatcher l" for l
    by (simp add: allowListWatcher_def Everything_def)
  have a: "allowListed [''prod/nginx-1''] nginxPod"
    "\<not> allowListed [''prod/nginx-1''] nginx2Pod"
    "allowListed [''prod/nginx-1''] (nginxPod\<lparr>Phase := PodPending\<rparr>)"
    by (simp_all add: allowListed_def podKey_def nginxPod_def nginx2Pod_def)
  have p: "Phase nginxPod = PodRunning" "Phase (nginxPod\<lparr>Phase := PodPending\<rparr>) = PodPending"
    by (simp_all add: nginxPod_def PodRunning_def)
  from shouldWatchPod_policy [OF h, of nginxPod] s a(1) p(1)
  have 1: "shouldWatchPod allowListWatcher nginxPod" by blast
  from shouldWatchPod_policy [OF h, of nginx2Pod] a(2)
  have 2: "\<not> shouldWatchPod allowListWatcher nginx2Pod" by blast
  from shouldWatchPod_policy [OF h, of "nginxPod\<lparr>Phase := PodPending\<rparr>"] p(2)
  have 3: "\<not> shouldWatchPod allowListWatcher (nginxPod\<lparr>Phase := PodPending\<rparr>)" by blast
  from h 1 2 3 show ?thesis by simp
qed

text \<open>
  Claim C6 says that two pods that agree on labels and phase get the same answer under
  the same watcher. The pods \<open>nginx-1\<close> and \<open>nginx-2\<close> agree on both, and under the
  watcher for the pod name \<open>prod/nginx-1\<close> the first is watched and the second is not.
\<close>

theorem shouldWatchPod_name_counterexample:
  "Labels nginxPod = Labels nginx2Pod \<and> Phase nginxPod = Phase nginx2Pod
   \<and> shouldWatchPod allowListWatcher nginxPod
   \<and> \<not> shouldWatchPod allowListWatcher nginx2Pod"
  by (simp add: shouldWatchPod_Line180 shouldWatchPodReturn_def allowListWatcher_def Everything_def
      lookupBool_def podKey_def nginxPod_def nginx2Pod_def PodRunning_def PodSucceeded_def)

text \<open>
  Claim C6, amended. \<open>shouldWatchPod\<close> is a function of the pod's labels, namespace, name
  and phase and of the watcher's selector and pod names: under watchers that agree on
  selector and pod names, two pods that agree on labels, namespace, name and phase get
  the same answer, whatever their other fields and whatever else the watchers hold; and
  when the watcher has no pod names, agreeing on labels and phase is enough.
\<close>

theorem shouldWatchPod_depends_on:
  assumes "selector w = selector w'" and "podNames w = podNames w'"
    and "Labels p = Labels q" and "Phase p = Phase q"
  shows "(Namespace p = Namespace q \<and> Name p = Name q \<longrightarrow> shouldWatchPod w p = shouldWatchPod w' q)
    \<and> (podNames w = Map.empty \<longrightarrow> shouldWatchPod w p = shouldWatchPod w' q)"
  using assms by (simp add: shouldWatchPod_Line180 shouldWatchPodReturn_def podKey_def)

text \<open>
  The amended C6: a pod with other containers under a watcher in another state, and the
  pods \<open>nginx-1\<close> and \<open>nginx-2\<close> under the watcher without pod names.
\<close>

theorem shouldWatchPod_depends_on_witness:
  "shouldWatchPod allowListWatcher (nginxPod\<lparr>Containers := [''web'', ''sidecar'']\<rparr>)
     = shouldWatchPod (allowListWatcher\<lparr>wg := 3, ctxDone := True\<rparr>) nginxPod
   \<and> shouldWatchPod defaultWatcher nginxPod = shouldWatchPod defaultWatcher nginx2Pod"
proof -
  have 1: "selector allowListWatcher = selector (allowListWatcher\<lparr>wg := 3, ctxDone := True\<rparr>)"
    "podNames allowListWatcher = podNames (allowListWatcher\<lparr>wg := 3, ctxDone := True\<rparr>)"
    "Labels (nginxPod\<lparr>Containers := [''web'', ''sidecar'']\<rparr>) = Labels nginxPod"
    "Phase (nginxPod\<lparr>Containers := [''web'', ''sidecar'']\<rparr>) = Phase nginxPod"
    "Namespace (nginxPod\<lparr>Containers := [''web'', ''sidecar'']\<rparr>) = Namespace nginxPod"
    "Name (nginxPod\<lparr>Containers := [''web'', ''sidecar'']\<rparr>) = Name nginxPod"
    by simp_all
  have 2: "Labels nginxPod = Labels nginx2Pod" "Phase nginxPod = Phase nginx2Pod"
    "podNames defaultWatcher = Map.empty"
    by (simp_all add: nginx2Pod_def defaultWatcher_def)
  from shouldWatchPod_depends_on [OF 1(1-4)] 1(5,6)
    shouldWatchPod_depends_on [OF refl refl 2(1,2), of defaultWatcher] 2(3)
  show ?thesis by blast
qed

section \<open>Properties of the registry\<close>

lemmas sys_defs = run_def step_def initial_def PodWatcher_Start_def AddFunc_def UpdateFunc_def
  DeleteFunc_def startPodStreams_def stopPodStreams_def ensureStream_def lockedCreate_def
  PodLogStreamer_Start_def NewPodLogStreamer_def setPos_def stopStream_def openStream_def
  scan_def checkLine_def sendCase_def doneCase_def receive_def syncDone_def stopStep_def
  ctxIsDone_def capacity_def getStreamKey_def shouldWatchPod_Line180 shouldWatchPodReturn_def
  lookupBool_def podKey_def PodRunning_def PodSucceeded_def Everything_def

lemma regOK_insert:
  assumes "regOK m dn ks st" and "m key = None"
  shows "regOK (m(key \<mapsto> length ks)) dn (ks @ [(key, False)]) st"
proof -
  have a: "sid < length (ks @ [(key, False)]) \<and> (ks @ [(key, False)]) ! sid = (k, False)"
    if "(m(key \<mapsto> length ks)) k = Some sid" for k sid
  proof (cases "k = key")
    case True
    with that have "sid = length ks" by simp
    with True show ?thesis by simp
  next
    case False
    with that have "m k = Some sid" by simp
    with assms(1) have "sid < length ks \<and> ks ! sid = (k, False)" by (simp add: regOK_def)
    then show ?thesis by (simp add: nth_append)
  qed
  have b: "(m(key \<mapsto> length ks)) (fst ((ks @ [(key, False)]) ! sid)) = Some sid"
    if nd: "\<not> dn" and sid: "sid < length (ks @ [(key, False)])"
      and nc: "\<not> snd ((ks @ [(key, False)]) ! sid)" for sid
  proof (cases "sid < length ks")
    case True
    with nc have "\<not> snd (ks ! sid)" by (simp add: nth_append)
    with assms(1) nd True have reg: "m (fst (ks ! sid)) = Some sid" by (simp add: regOK_def)
    with assms(2) have "fst (ks ! sid) \<noteq> key" by auto
    with reg True show ?thesis by (simp add: nth_append)
  next
    case False
    with sid have "sid = length ks" by simp
    then show ?thesis by simp
  qed
  from assms(1) have c: "pastCancel st \<longrightarrow> dn" by (simp add: regOK_def)
  from a b c show ?thesis unfolding regOK_def by blast
qed

lemma regOK_remove:
  assumes "regOK m dn ks st" and "m key = Some sid"
  shows "regOK (m(key := None)) dn (ks[sid := (fst (ks ! sid), True)]) st"
proof -
  from assms have sid: "sid < length ks" "ks ! sid = (key, False)" by (simp_all add: regOK_def)
  have a: "i < length (ks[sid := (fst (ks ! sid), True)])
      \<and> (ks[sid := (fst (ks ! sid), True)]) ! i = (k, False)"
    if "(m(key := None)) k = Some i" for k i
  proof -
    from that have kk: "k \<noteq> key" and mk: "m k = Some i" by (auto split: if_splits)
    from assms(1) mk have i: "i < length ks" "ks ! i = (k, False)" by (simp_all add: regOK_def)
    with sid kk have "i \<noteq> sid" by auto
    with i show ?thesis by simp
  qed
  have b: "(m(key := None)) (fst ((ks[sid := (fst (ks ! sid), True)]) ! i)) = Some i"
    if nd: "\<not> dn" and i: "i < length (ks[sid := (fst (ks ! sid), True)])"
      and nc: "\<not> snd ((ks[sid := (fst (ks ! sid), True)]) ! i)" for i
  proof -
    from i nc sid have ne: "i \<noteq> sid" by (auto simp: nth_list_update)
    with i nc have "i < length ks" "\<not> snd (ks ! i)" by simp_all
    with assms(1) nd have reg: "m (fst (ks ! i)) = Some i" by (simp add: regOK_def)
    with assms(2) ne have "fst (ks ! i) \<noteq> key" by auto
    with reg ne show ?thesis by simp
  qed
  from assms(1) have c: "pastCancel st \<longrightarrow> dn" by (simp add: regOK_def)
  from a b c show ?thesis unfolding regOK_def by blast
qed

lemma regOK_cancel: "regOK m dn ks st \<Longrightarrow> regOK m True ks st'"
  by (simp add: regOK_def)

lemma regOK_clear: "regOK m True ks st \<Longrightarrow> regOK Map.empty True ks st'"
  by (simp add: regOK_def)

lemma regOK_stay: "regOK m dn ks st \<Longrightarrow> pastCancel st' \<longrightarrow> pastCancel st \<Longrightarrow> regOK m dn ks st'"
  by (simp add: regOK_def)

lemma regOK_done: "regOK m dn ks st \<Longrightarrow> pastCancel st \<Longrightarrow> dn"
  by (simp add: regOK_def)

lemma keys_setPos [simp]: "keys (setPos sid q \<sigma>) = keys \<sigma>"
proof (cases "sid < length (heap \<sigma>)")
  case True
  then show ?thesis
    by (simp add: keys_def setPos_def map_update keyOf_def list_update_same_conv)
next
  case False
  then have "(heap \<sigma>)[sid := (heap \<sigma> ! sid)\<lparr>pos := q\<rparr>] = heap \<sigma>"
    by (intro list_update_beyond) simp
  then show ?thesis by (simp add: keys_def setPos_def)
qed

lemma watcher_setPos [simp]: "watcher (setPos sid q \<sigma>) = watcher \<sigma>"
  and stopAt_setPos [simp]: "stopAt (setPos sid q \<sigma>) = stopAt \<sigma>"
  by (simp_all add: setPos_def)

lemma registryOK_setPos [simp]: "registryOK (setPos sid q \<sigma>) = registryOK \<sigma>"
  by (simp add: registryOK_def)

lemma registryOK_lockedCreate: "registryOK \<sigma> \<Longrightarrow> registryOK (lockedCreate p c \<sigma>)"
proof (cases "streamers (watcher \<sigma>) (getStreamKey p c)")
  case None
  assume "registryOK \<sigma>"
  then have "regOK ((streamers (watcher \<sigma>))(getStreamKey p c \<mapsto> length (keys \<sigma>)))
      (ctxDone (watcher \<sigma>)) (keys \<sigma> @ [(getStreamKey p c, False)]) (stopAt \<sigma>)"
    unfolding registryOK_def using None by (rule regOK_insert)
  with None show ?thesis
    by (simp add: registryOK_def lockedCreate_def keys_def keyOf_def NewPodLogStreamer_def)
next
  case (Some sid)
  assume "registryOK \<sigma>"
  with Some show ?thesis by (simp add: lockedCreate_def)
qed

lemma registryOK_Start: "registryOK \<sigma> \<Longrightarrow> registryOK (PodLogStreamer_Start sid \<sigma>)"
  by (simp add: PodLogStreamer_Start_def)

lemma registryOK_ensureStream: "registryOK \<sigma> \<Longrightarrow> registryOK (ensureStream p c \<sigma>)"
  by (cases "streamers (watcher \<sigma>) (getStreamKey p c)")
    (simp_all add: ensureStream_def registryOK_Start registryOK_lockedCreate)

lemma registryOK_startContainers: "registryOK \<sigma> \<Longrightarrow> registryOK (startContainers p cs \<sigma>)"
  by (induction cs arbitrary: \<sigma>) (simp_all add: registryOK_ensureStream)

lemma registryOK_startInitContainers:
  "registryOK \<sigma> \<Longrightarrow> registryOK (startInitContainers p cs \<sigma>)"
  by (induction cs arbitrary: \<sigma>) (simp_all add: registryOK_ensureStream)

lemma registryOK_startPodStreams: "registryOK \<sigma> \<Longrightarrow> registryOK (startPodStreams p \<sigma>)"
  by (simp add: startPodStreams_def registryOK_startContainers registryOK_startInitContainers)

lemma registryOK_stopStream: "registryOK \<sigma> \<Longrightarrow> registryOK (stopStream p c \<sigma>)"
proof (cases "streamers (watcher \<sigma>) (getStreamKey p c)")
  case None
  assume "registryOK \<sigma>"
  with None show ?thesis by (simp add: stopStream_def)
next
  case (Some sid)
  assume ok: "registryOK \<sigma>"
  then have r: "regOK ((streamers (watcher \<sigma>))(getStreamKey p c := None))
      (ctxDone (watcher \<sigma>)) ((keys \<sigma>)[sid := (fst (keys \<sigma> ! sid), True)]) (stopAt \<sigma>)"
    unfolding registryOK_def using Some by (rule regOK_remove)
  from ok Some have "sid < length (keys \<sigma>)" by (simp add: registryOK_def regOK_def)
  then have "sid < length (heap \<sigma>)" by (simp add: keys_def)
  then have "keys (\<sigma>\<lparr>heap := (heap \<sigma>)[sid := (heap \<sigma> ! sid)\<lparr>cancelCalled := True\<rparr>],
            watcher := (watcher \<sigma>)\<lparr>streamers := (streamers (watcher \<sigma>))(getStreamKey p c := None)\<rparr>\<rparr>)
      = (keys \<sigma>)[sid := (fst (keys \<sigma> ! sid), True)]"
    by (simp add: keys_def map_update keyOf_def)
  with r Some show ?thesis
    by (simp add: registryOK_def stopStream_def)
qed

lemma registryOK_stopContainers: "registryOK \<sigma> \<Longrightarrow> registryOK (stopContainers p cs \<sigma>)"
  by (induction cs arbitrary: \<sigma>) (simp_all add: registryOK_stopStream)

lemma registryOK_stopPodStreams: "registryOK \<sigma> \<Longrightarrow> registryOK (stopPodStreams p \<sigma>)"
  by (simp add: stopPodStreams_def registryOK_stopContainers)

lemma registryOK_openStream: "registryOK \<sigma> \<Longrightarrow> registryOK (openStream sid ok \<sigma>)"
  by (simp add: openStream_def)

lemma registryOK_scan: "registryOK \<sigma> \<Longrightarrow> registryOK (scan sid next \<sigma>)"
  by (simp add: scan_def)

lemma registryOK_checkLine: "registryOK \<sigma> \<Longrightarrow> registryOK (checkLine sid ord \<sigma>)"
  by (simp add: checkLine_def split: position.split)

lemma registryOK_chan [simp]:
  "registryOK (\<sigma>\<lparr>lineChan := b\<rparr>) = registryOK \<sigma>"
  "registryOK (\<sigma>\<lparr>panicked := x\<rparr>) = registryOK \<sigma>"
  by (simp_all add: registryOK_def keys_def)

lemma registryOK_sendCase: "registryOK \<sigma> \<Longrightarrow> registryOK (sendCase sid \<sigma>)"
  by (simp add: sendCase_def split: position.split)

lemma registryOK_doneCase: "registryOK \<sigma> \<Longrightarrow> registryOK (doneCase sid \<sigma>)"
  by (simp add: doneCase_def split: position.split)

lemma registryOK_receive: "registryOK \<sigma> \<Longrightarrow> registryOK (receive \<sigma>)"
  by (simp add: receive_def)

lemma registryOK_syncDone: "registryOK \<sigma> \<Longrightarrow> registryOK (syncDone \<sigma>)"
  by (simp add: syncDone_def registryOK_def keys_def)

lemma keys_fields [simp]:
  "keys (\<sigma>\<lparr>watcher := w\<rparr>) = keys \<sigma>"
  "keys (\<sigma>\<lparr>stopAt := st\<rparr>) = keys \<sigma>"
  "keys (\<sigma>\<lparr>closed := cl\<rparr>) = keys \<sigma>"
  "keys (\<sigma>\<lparr>panicked := pn\<rparr>) = keys \<sigma>"
  "keys (\<sigma>\<lparr>lineChan := b\<rparr>) = keys \<sigma>"
  by (simp_all add: keys_def)

lemma registryOK_stopStep: "registryOK \<sigma> \<Longrightarrow> registryOK (stopStep \<sigma>)"
proof -
  assume ok: "registryOK \<sigma>"
  then have r: "regOK (streamers (watcher \<sigma>)) (ctxDone (watcher \<sigma>)) (keys \<sigma>) (stopAt \<sigma>)"
    by (simp add: registryOK_def)
  show ?thesis
  proof (cases "stopAt \<sigma>")
    case Idle
    from r have "regOK (streamers (watcher \<sigma>)) (ctxDone (watcher \<sigma>)) (keys \<sigma>) W292"
      by (rule regOK_stay) (simp add: pastCancel_def)
    with Idle show ?thesis by (simp add: stopStep_def registryOK_def)
  next
    case W292
    from r have "regOK (streamers (watcher \<sigma>)) True (keys \<sigma>) W298"
      by (rule regOK_cancel)
    with W292 show ?thesis by (simp add: stopStep_def registryOK_def)
  next
    case W298
    from r have "regOK (streamers (watcher \<sigma>)) (ctxDone (watcher \<sigma>)) (keys \<sigma>) W301"
      by (rule regOK_stay) (simp add: pastCancel_def W298)
    with W298 ok show ?thesis by (simp add: stopStep_def registryOK_def)
  next
    case W301
    from r have dn: "ctxDone (watcher \<sigma>)" by (rule regOK_done) (simp add: pastCancel_def W301)
    with r have "regOK Map.empty True (keys \<sigma>) L103" by (simp add: regOK_clear)
    with W301 dn show ?thesis by (simp add: stopStep_def registryOK_def)
  next
    case L103
    from r have "regOK (streamers (watcher \<sigma>)) (ctxDone (watcher \<sigma>)) (keys \<sigma>) L104"
      by (rule regOK_stay) (simp add: pastCancel_def L103)
    with L103 show ?thesis by (simp add: stopStep_def registryOK_def)
  next
    case L104
    from r have "regOK (streamers (watcher \<sigma>)) (ctxDone (watcher \<sigma>)) (keys \<sigma>) Returned"
      by (rule regOK_stay) (simp add: pastCancel_def L104)
    with L104 ok show ?thesis by (simp add: stopStep_def registryOK_def)
  next
    case Returned
    with ok show ?thesis by (simp add: stopStep_def)
  qed
qed

lemma registryOK_exec: "registryOK \<sigma> \<Longrightarrow> registryOK (exec e \<sigma>)"
  by (cases e)
    (simp_all add: AddFunc_def UpdateFunc_def DeleteFunc_def registryOK_startPodStreams
      registryOK_stopPodStreams registryOK_lockedCreate registryOK_Start registryOK_openStream
      registryOK_scan registryOK_checkLine registryOK_sendCase registryOK_doneCase
      registryOK_receive registryOK_syncDone registryOK_stopStep)

lemma registryOK_step: "registryOK \<sigma> \<Longrightarrow> registryOK (step \<sigma> e)"
  by (simp add: step_def registryOK_exec)

lemma registryOK_run: "registryOK \<sigma> \<Longrightarrow> registryOK (run evs \<sigma>)"
  unfolding run_def by (induction evs arbitrary: \<sigma>) (simp_all add: registryOK_step)

lemma registryOK_initial: "streamers w = Map.empty \<Longrightarrow> registryOK (initial w)"
  by (simp add: registryOK_def regOK_def initial_def PodWatcher_Start_def keys_def pastCancel_def)

lemma NewPodWatcher_streamers:
  "NewPodWatcher parse nss sel names tail snc = Inr w \<Longrightarrow> streamers w = Map.empty"
  by (cases "if sel \<noteq> [] then parse sel else Some Everything")
    (auto simp: NewPodWatcher_def)

section \<open>Claims about the registry\<close>

lemma registry_entry:
  assumes "registryOK \<sigma>" and "streamers (watcher \<sigma>) k = Some sid"
  shows "sid < length (heap \<sigma>) \<and> keyOf (heap \<sigma> ! sid) = k \<and> \<not> cancelCalled (heap \<sigma> ! sid)"
proof -
  from assms have "sid < length (keys \<sigma>) \<and> keys \<sigma> ! sid = (k, False)"
    by (simp add: registryOK_def regOK_def)
  then show ?thesis by (auto simp: keys_def)
qed

lemma live_registered:
  assumes "registryOK \<sigma>" and "live \<sigma> i"
  shows "streamers (watcher \<sigma>) (keyOf (heap \<sigma> ! i)) = Some i"
proof -
  from assms(2) have i: "i < length (keys \<sigma>)" "\<not> snd (keys \<sigma> ! i)" "\<not> ctxDone (watcher \<sigma>)"
    by (simp_all add: live_def keys_def)
  with assms(1) have "streamers (watcher \<sigma>) (fst (keys \<sigma> ! i)) = Some i"
    by (simp add: registryOK_def regOK_def)
  with i(1) show ?thesis by (simp add: keys_def)
qed

text \<open>
  Claim C7. In every state that the system reaches from its start, by whatever sequence
  of handler runs, critical sections of interleaved handlers, goroutine steps and steps
  of \<open>Stop\<close>: two live streamers never have the same stream key; every live streamer is
  the registry's entry for its key; every entry of the registry points to a streamer
  with the entry's key whose cancel has not been called. Starting a stream for a key that
  has an entry does nothing: neither the critical section nor the whole round of the loop
  changes the state, so no second streamer is created or started.
\<close>

theorem at_most_one_streamer:
  assumes "NewPodWatcher parse nss sel names tail snc = Inr w"
    and "\<sigma> = run evs (initial w)"
  shows "(\<forall>i j. live \<sigma> i \<and> live \<sigma> j \<and> keyOf (heap \<sigma> ! i) = keyOf (heap \<sigma> ! j) \<longrightarrow> i = j)
    \<and> (\<forall>i. live \<sigma> i \<longrightarrow> streamers (watcher \<sigma>) (keyOf (heap \<sigma> ! i)) = Some i)
    \<and> (\<forall>k sid. streamers (watcher \<sigma>) k = Some sid \<longrightarrow>
          sid < length (heap \<sigma>) \<and> keyOf (heap \<sigma> ! sid) = k \<and> \<not> cancelCalled (heap \<sigma> ! sid))
    \<and> (streamers (watcher \<sigma>) (getStreamKey p c) \<noteq> None \<longrightarrow>
          lockedCreate p c \<sigma> = \<sigma> \<and> ensureStream p c \<sigma> = \<sigma>)"
proof -
  from assms(1) have "registryOK (initial w)"
    by (intro registryOK_initial) (rule NewPodWatcher_streamers)
  then have ok: "registryOK \<sigma>" unfolding assms(2) by (rule registryOK_run)
  have a: "i = j"
    if "live \<sigma> i" "live \<sigma> j" "keyOf (heap \<sigma> ! i) = keyOf (heap \<sigma> ! j)" for i j
    using live_registered [OF ok that(1)] live_registered [OF ok that(2)] that(3)
    by (metis option.inject)
  have b: "streamers (watcher \<sigma>) (keyOf (heap \<sigma> ! i)) = Some i" if "live \<sigma> i" for i
    using ok that by (rule live_registered)
  have c: "sid < length (heap \<sigma>) \<and> keyOf (heap \<sigma> ! sid) = k \<and> \<not> cancelCalled (heap \<sigma> ! sid)"
    if "streamers (watcher \<sigma>) k = Some sid" for k sid
    using ok that by (rule registry_entry)
  have d: "lockedCreate p c \<sigma> = \<sigma> \<and> ensureStream p c \<sigma> = \<sigma>"
    if "streamers (watcher \<sigma>) (getStreamKey p c) \<noteq> None"
    using that by (auto simp: lockedCreate_def ensureStream_def)
  from a b c d show ?thesis by blast
qed

lemma racing_state:
  "run racingHandlers (initial allowListWatcher) =
     \<lparr>watcher = allowListWatcher\<lparr>streamers := [''prod/nginx-1/web'' \<mapsto> 0], wg := 1\<rparr>,
      heap = [\<lparr>streamer = nginxWeb, cancelCalled = False, pos = AtStream\<rparr>],
      lineChan = [], closed = False, stopAt = Idle, panicked = False\<rparr>"
  by (simp add: sys_defs racingHandlers_def allowListWatcher_def nginxPod_def nginxWeb_def)

text \<open>
  C7 after two handlers have raced for the container \<open>web\<close> of one pod: there is one
  streamer, it is live and it is the entry of its key, and one more start changes
  nothing.
\<close>

theorem at_most_one_streamer_witness:
  "NewPodWatcher noParse [] [] [''prod/nginx-1''] (Some 10) None = Inr allowListWatcher
   \<and> length (heap (run racingHandlers (initial allowListWatcher))) = 1
   \<and> live (run racingHandlers (initial allowListWatcher)) 0
   \<and> streamers (watcher (run racingHandlers (initial allowListWatcher)))
        (getStreamKey nginxPod ''web'') = Some 0
   \<and> ensureStream nginxPod ''web'' (run racingHandlers (initial allowListWatcher))
        = run racingHandlers (initial allowListWatcher)"
proof -
  have h: "NewPodWatcher noParse [] [] [''prod/nginx-1''] (Some 10) None = Inr allowListWatcher"
    by (rule NewPodWatcher_allowList)
  have l: "length (heap (run racingHandlers (initial allowListWatcher))) = 1"
    "live (run racingHandlers (initial allowListWatcher)) 0"
    unfolding racing_state by (simp_all add: live_def allowListWatcher_def)
  have k: "keyOf (heap (run racingHandlers (initial allowListWatcher)) ! 0) = getStreamKey nginxPod ''web''"
    unfolding racing_state by (simp add: keyOf_def nginxWeb_def)
  from at_most_one_streamer [OF h refl, of racingHandlers nginxPod "''web''"] l(2)
  have r: "streamers (watcher (run racingHandlers (initial allowListWatcher)))
      (keyOf (heap (run racingHandlers (initial allowListWatcher)) ! 0)) = Some 0"
    by blast
  then have r': "streamers (watcher (run racingHandlers (initial allowListWatcher)))
      (getStreamKey nginxPod ''web'') = Some 0"
    unfolding k .
  with at_most_one_streamer [OF h refl, of racingHandlers nginxPod "''web''"]
  have e: "ensureStream nginxPod ''web'' (run racingHandlers (initial allowListWatcher))
        = run racingHandlers (initial allowListWatcher)"
    by simp
  from h l r' e show ?thesis by simp
qed

section \<open>Stopping while a streamer sends\<close>

lemma helloLine_nonempty: "helloLine \<noteq> []"
  by (simp add: helloLine_def)

lemma beforeStop_state:
  "run beforeStop (initial defaultWatcher) =
     \<lparr>watcher = defaultWatcher\<lparr>streamers := [''prod/nginx-1/web'' \<mapsto> 0], wg := 1\<rparr>,
      heap = [\<lparr>streamer = nginxWeb, cancelCalled = False,
               pos = AtSend (enrichLogLine nginxWeb [(''app'', ''nginx'')] helloLine)\<rparr>],
      lineChan = [], closed = False, stopAt = Idle, panicked = False\<rparr>"
  by (simp add: sys_defs beforeStop_def defaultWatcher_def nginxPod_def nginxWeb_def rangeOrder_def
      helloLine_nonempty)

lemma run_append: "run (xs @ ys) \<sigma> = run ys (run xs \<sigma>)"
  by (simp add: run_def)

lemma watcherStop_state:
  "run (beforeStop @ watcherStop) (initial defaultWatcher) =
     \<lparr>watcher = defaultWatcher\<lparr>ctxDone := True\<rparr>,
      heap = [\<lparr>streamer = nginxWeb, cancelCalled = False,
               pos = AtSend (enrichLogLine nginxWeb [(''app'', ''nginx'')] helloLine)\<rparr>],
      lineChan = [], closed = False, stopAt = L103, panicked = False\<rparr>"
  unfolding run_append beforeStop_state
  by (simp add: run_def step_def stopStep_def syncDone_def watcherStop_def defaultWatcher_def)

lemma sourceStop_state:
  "run (beforeStop @ sourceStop) (initial defaultWatcher) =
     \<lparr>watcher = defaultWatcher\<lparr>ctxDone := True\<rparr>,
      heap = [\<lparr>streamer = nginxWeb, cancelCalled = False,
               pos = AtSend (enrichLogLine nginxWeb [(''app'', ''nginx'')] helloLine)\<rparr>],
      lineChan = [], closed = True, stopAt = Returned, panicked = False\<rparr>"
  unfolding sourceStop_def append_assoc [symmetric] run_append [of "beforeStop @ watcherStop"]
    watcherStop_state
  by (simp add: run_def step_def stopStep_def)

text \<open>
  Claim C1 says that \<open>Stop\<close> closes the output channel only after every goroutine that
  can send on it has stopped, so that no send meets a closed channel. In the run below
  the streamer of \<open>web\<close> stands at its second \<open>select\<close> when \<open>Stop\<close> is called. \<open>Stop\<close>
  cancels, waits on \<open>w.wg\<close>, where no streamer is counted, and closes the channel: it
  has returned, and the goroutine has not. Both cases of the \<open>select\<close> can now proceed,
  and when the send is chosen it panics.
\<close>

theorem send_after_close:
  "NewPodWatcher noParse [] [] [] (Some 10) None = Inr defaultWatcher
   \<and> stopAt (run (beforeStop @ sourceStop) (initial defaultWatcher)) = Returned
   \<and> closed (run (beforeStop @ sourceStop) (initial defaultWatcher))
   \<and> \<not> panicked (run (beforeStop @ sourceStop) (initial defaultWatcher))
   \<and> pos (heap (run (beforeStop @ sourceStop) (initial defaultWatcher)) ! 0)
       = AtSend (enrichLogLine nginxWeb [(''app'', ''nginx'')] helloLine)
   \<and> panicked (run (beforeStop @ sourceStop @ [Send 0]) (initial defaultWatcher))"
proof -
  have "run (beforeStop @ sourceStop @ [Send 0]) (initial defaultWatcher)
      = step (run (beforeStop @ sourceStop) (initial defaultWatcher)) (Send 0)"
    unfolding append_assoc [symmetric] run_append by (simp add: run_def)
  then have "panicked (run (beforeStop @ sourceStop @ [Send 0]) (initial defaultWatcher))"
    unfolding sourceStop_state by (simp add: step_def sendCase_def)
  then show ?thesis unfolding sourceStop_state by (simp add: NewPodWatcher_default)
qed

text \<open>
  Claim C2 says that after \<open>PodWatcher.Stop\<close> returns the registry is empty, every
  goroutine has exited and no further record is emitted. In the run below
  \<open>PodWatcher.Stop\<close> has returned: the registry is empty and the wait group is at zero,
  but the goroutine of the streamer stands at its second \<open>select\<close>, where both cases
  can proceed. When the send is chosen, a record enters the channel after the return, and
  the goroutine goes on to read the next line.
\<close>

theorem record_after_watcher_stop:
  "NewPodWatcher noParse [] [] [] (Some 10) None = Inr defaultWatcher
   \<and> stopAt (run (beforeStop @ watcherStop) (initial defaultWatcher)) = L103
   \<and> streamers (watcher (run (beforeStop @ watcherStop) (initial defaultWatcher))) = Map.empty
   \<and> wg (watcher (run (beforeStop @ watcherStop) (initial defaultWatcher))) = 0
   \<and> lineChan (run (beforeStop @ watcherStop) (initial defaultWatcher)) = []
   \<and> pos (heap (run (beforeStop @ watcherStop) (initial defaultWatcher)) ! 0)
       = AtSend (enrichLogLine nginxWeb [(''app'', ''nginx'')] helloLine)
   \<and> lineChan (run (beforeStop @ watcherStop @ [Send 0]) (initial defaultWatcher))
       = [enrichLogLine nginxWeb [(''app'', ''nginx'')] helloLine]
   \<and> pos (heap (run (beforeStop @ watcherStop @ [Send 0]) (initial defaultWatcher)) ! 0) = AtScan"
proof -
  have "run (beforeStop @ watcherStop @ [Send 0]) (initial defaultWatcher)
      = step (run (beforeStop @ watcherStop) (initial defaultWatcher)) (Send 0)"
    unfolding append_assoc [symmetric] run_append by (simp add: run_def)
  then have "lineChan (run (beforeStop @ watcherStop @ [Send 0]) (initial defaultWatcher))
       = [enrichLogLine nginxWeb [(''app'', ''nginx'')] helloLine]
     \<and> pos (heap (run (beforeStop @ watcherStop @ [Send 0]) (initial defaultWatcher)) ! 0) = AtScan"
    unfolding watcherStop_state by (simp add: step_def sendCase_def setPos_def capacity_def)
  then show ?thesis unfolding watcherStop_state
    by (simp add: NewPodWatcher_default) (simp add: defaultWatcher_def)
qed

section \<open>Properties of the read loop\<close>






end
